theory Spec2Isabelle
  imports Main "HOL-Library.Word"
begin

unbundle bit_operations_syntax

section \<open>Data model of the VSFS journal (journal.c)\<close>

text \<open>
  The program keeps one backing file, \<^verbatim>\<open>vsfs.img\<close>, and addresses it with
  \<^verbatim>\<open>fseek\<close>/\<^verbatim>\<open>fread\<close>/\<^verbatim>\<open>fwrite\<close>. The file is modelled as its
  length and its bytes by position. Bytes at or beyond the length are not part of the file.
  All structs are read and written through casts of byte buffers, so every struct is a byte
  layout here: integers are little-endian (the byte order of the machines the program is
  built for), and the structs have no padding (their fields are naturally aligned).
\<close>

type_synonym byte = "8 word"
type_synonym u16 = "16 word"
type_synonym u32 = "32 word"

record disk_image =
  contents :: "nat \<Rightarrow> byte"
  fsize :: nat

text \<open>The fields of \<^verbatim>\<open>struct superblock\<close> that the journal code uses (the global \<^verbatim>\<open>sb\<close>).\<close>

record superblock =
  total_blocks :: u32
  journal_block :: u32
  inode_bitmap :: u32
  inode_start :: u32

datatype error =
    NameTooLong
  | IoFailure
  | JournalFull
  | NoFreeInodes
  | AlreadyExists
  | DirectoryFull
  | BufferOverread
  | BadSuperblock

abbreviation (input) BLOCK_SIZE :: nat where "BLOCK_SIZE \<equiv> 4096"
abbreviation (input) JOURNAL_BLOCKS :: nat where "JOURNAL_BLOCKS \<equiv> 16"
abbreviation (input) MAX_INODES :: nat where "MAX_INODES \<equiv> 64"
abbreviation (input) INODES_PER_BLOCK :: nat where "INODES_PER_BLOCK \<equiv> 32"
abbreviation (input) MAX_DIRENTS :: nat where "MAX_DIRENTS \<equiv> 128"
abbreviation (input) JOURNAL_MAGIC :: u32 where "JOURNAL_MAGIC \<equiv> 0x4A524E4C"
abbreviation (input) REC_DATA :: u16 where "REC_DATA \<equiv> 1"
abbreviation (input) REC_COMMIT :: u16 where "REC_COMMIT \<equiv> 2"
abbreviation (input) INODE_FREE :: u16 where "INODE_FREE \<equiv> 0"
abbreviation (input) INODE_FILE :: u16 where "INODE_FILE \<equiv> 1"
abbreviation (input) SIZEOF_journal_header :: nat where "SIZEOF_journal_header \<equiv> 8"
abbreviation (input) SIZEOF_data_record :: nat where "SIZEOF_data_record \<equiv> 4104"
abbreviation (input) SIZEOF_commit_record :: nat where "SIZEOF_commit_record \<equiv> 4"
abbreviation (input) SIZEOF_dirent :: nat where "SIZEOF_dirent \<equiv> 32"
abbreviation (input) SIZEOF_inode :: nat where "SIZEOF_inode \<equiv> 128"

subsection \<open>Little-endian fields in a byte buffer\<close>

definition le16 :: "u16 \<Rightarrow> byte list" where
  "le16 w = [ucast w, ucast (drop_bit 8 w)]"

definition le32 :: "u32 \<Rightarrow> byte list" where
  "le32 w = [ucast w, ucast (drop_bit 8 w), ucast (drop_bit 16 w), ucast (drop_bit 24 w)]"

definition rd16 :: "byte list \<Rightarrow> nat \<Rightarrow> u16" where
  "rd16 buf off = ucast (buf ! off) OR push_bit 8 (ucast (buf ! (off + 1)))"

definition rd32 :: "byte list \<Rightarrow> nat \<Rightarrow> u32" where
  "rd32 buf off =
     ucast (buf ! off) OR push_bit 8 (ucast (buf ! (off + 1)))
       OR push_bit 16 (ucast (buf ! (off + 2))) OR push_bit 24 (ucast (buf ! (off + 3)))"

text \<open>Storing a field (or a \<^verbatim>\<open>memcpy\<close>) into a buffer: the bytes at \<open>off\<close> are replaced.\<close>

definition put_bytes :: "byte list \<Rightarrow> nat \<Rightarrow> byte list \<Rightarrow> byte list" where
  "put_bytes buf off new = take off buf @ new @ drop (off + length new) buf"

subsection \<open>Block store\<close>

text \<open>
  \<^verbatim>\<open>fread(buffer, n, 1, disk)\<close> returns 1 only when all \<open>n\<close> bytes are inside the file
  (and \<open>n\<close> is not 0). \<^verbatim>\<open>fseek\<close> to a non-negative position of a regular file succeeds,
  also beyond the end. \<^verbatim>\<open>fwrite\<close> of \<open>n > 0\<close> bytes is taken to succeed (a full
  device is outside the model); written beyond the end, it extends the file, and the gap
  reads as zero bytes.
\<close>

definition file_read :: "disk_image \<Rightarrow> nat \<Rightarrow> nat \<Rightarrow> error + byte list" where
  "file_read d pos n =
     (if n = 0 \<or> fsize d < pos + n then Inl IoFailure
      else Inr (map (contents d) [pos..<pos + n]))"

definition file_write :: "disk_image \<Rightarrow> nat \<Rightarrow> byte list \<Rightarrow> disk_image" where
  "file_write d pos buf =
     \<lparr>contents = (\<lambda>a. if pos \<le> a \<and> a < pos + length buf then buf ! (a - pos)
                        else if fsize d \<le> a \<and> a < pos then 0 else contents d a),
      fsize = max (fsize d) (pos + length buf)\<rparr>"

text \<open>\<^verbatim>\<open>block_no * BLOCK_SIZE\<close> is computed in \<^verbatim>\<open>uint32_t\<close>, so it wraps.\<close>

definition read_block :: "disk_image \<Rightarrow> u32 \<Rightarrow> error + byte list" where
  "read_block d block_no = file_read d (unat (block_no * 4096)) BLOCK_SIZE"

definition write_block :: "disk_image \<Rightarrow> u32 \<Rightarrow> byte list \<Rightarrow> disk_image" where
  "write_block d block_no buffer = file_write d (unat (block_no * 4096)) buffer"

definition read_journal_bytes :: "superblock \<Rightarrow> disk_image \<Rightarrow> u32 \<Rightarrow> u32 \<Rightarrow> error + byte list" where
  "read_journal_bytes sb d offset len =
     file_read d (unat (journal_block sb * 4096 + offset)) (unat len)"

definition write_journal_bytes :: "superblock \<Rightarrow> disk_image \<Rightarrow> u32 \<Rightarrow> byte list \<Rightarrow> disk_image" where
  "write_journal_bytes sb d offset buffer =
     file_write d (unat (journal_block sb * 4096 + offset)) buffer"

subsection \<open>Allocator helpers\<close>

text \<open>
  The search of \<^verbatim>\<open>journal_create\<close> for a free inode: \<open>i\<close> from 1 to 63, the first with
  \<^verbatim>\<open>(inode_bitmap[i / 8] & (1 << (i % 8))) == 0\<close>.
\<close>

definition bit_clear :: "byte list \<Rightarrow> nat \<Rightarrow> bool" where
  "bit_clear bitmap i = ((bitmap ! (i div 8)) AND push_bit (i mod 8) 1 = 0)"

definition find_free_inode :: "byte list \<Rightarrow> nat option" where
  "find_free_inode bitmap = List.find (bit_clear bitmap) [1..<MAX_INODES]"

definition set_bit_at :: "byte list \<Rightarrow> nat \<Rightarrow> byte list" where
  "set_bit_at bitmap index =
     bitmap[index div 8 := (bitmap ! (index div 8)) OR push_bit (index mod 8) 1]"

text \<open>
  \<^verbatim>\<open>strcmp(a, b) == 0\<close> on two memory regions, each given from the pointer to the end
  of its buffer: \<open>None\<close> when the comparison would run off a buffer.
\<close>

fun strcmp_eq :: "byte list \<Rightarrow> byte list \<Rightarrow> bool option" where
  "strcmp_eq [] _ = None"
| "strcmp_eq _ [] = None"
| "strcmp_eq (a # as) (b # bs) =
     (if a \<noteq> b then Some False else if a = 0 then Some True else strcmp_eq as bs)"

text \<open>
  The directory scan. \<open>dir_block\<close> is the 4096-byte root directory block, seen as 128
  entries of 32 bytes: the inode number at 0, the name at 4. \<open>found\<close> is \<^verbatim>\<open>free_dirent\<close>
  (\<open>None\<close> for -1).
\<close>

fun scan_dirents :: "byte list \<Rightarrow> byte list \<Rightarrow> nat list \<Rightarrow> nat option \<Rightarrow> error + nat option" where
  "scan_dirents dir_block filename [] found = Inr found"
| "scan_dirents dir_block filename (i # is) found =
     (if dir_block ! (i * 32 + 4) \<noteq> 0 then
        (case strcmp_eq (drop (i * 32 + 4) dir_block) (filename @ [0]) of
           None \<Rightarrow> Inl BufferOverread
         | Some True \<Rightarrow> Inl AlreadyExists
         | Some False \<Rightarrow> scan_dirents dir_block filename is found)
      else if found = None then scan_dirents dir_block filename is (Some i)
      else scan_dirents dir_block filename is found)"

definition find_free_dirent :: "byte list \<Rightarrow> byte list \<Rightarrow> error + nat" where
  "find_free_dirent dir_block filename =
     (case scan_dirents dir_block filename [0..<MAX_DIRENTS] None of
        Inl e \<Rightarrow> Inl e
      | Inr None \<Rightarrow> Inl DirectoryFull
      | Inr (Some slot) \<Rightarrow> Inr slot)"

fun highest_loop :: "byte list \<Rightarrow> nat list \<Rightarrow> nat option \<Rightarrow> nat option" where
  "highest_loop dir_block [] highest = highest"
| "highest_loop dir_block (i # is) highest =
     highest_loop dir_block is (if dir_block ! (i * 32 + 4) \<noteq> 0 then Some i else highest)"

definition get_highest_dirent :: "byte list \<Rightarrow> nat option" where
  "get_highest_dirent dir_block = highest_loop dir_block [0..<MAX_DIRENTS] None"

subsection \<open>The create command\<close>

text \<open>
  The new inode: type, links, size, eight direct pointers, ctime, mtime. These are the
  first 48 bytes of the 128-byte inode; the padding is left as it was.
\<close>

definition new_inode_bytes :: "u32 \<Rightarrow> byte list" where
  "new_inode_bytes current_time =
     le16 INODE_FILE @ le16 1 @ le32 0 @ concat (replicate 8 (le32 0))
       @ le32 current_time @ le32 current_time"

definition init_inode :: "byte list \<Rightarrow> nat \<Rightarrow> u32 \<Rightarrow> byte list" where
  "init_inode inode_block idx current_time =
     put_bytes inode_block (idx * 128) (new_inode_bytes current_time)"

text \<open>\<^verbatim>\<open>memset(name, 0, 28)\<close> and \<^verbatim>\<open>strncpy(name, filename, 27)\<close>, for a name of at most 27 bytes.\<close>

definition dirent_bytes :: "nat \<Rightarrow> byte list \<Rightarrow> byte list" where
  "dirent_bytes ino filename =
     le32 (of_nat ino) @ take 27 filename @ replicate (28 - length (take 27 filename)) 0"

definition put_dirent :: "byte list \<Rightarrow> nat \<Rightarrow> nat \<Rightarrow> byte list \<Rightarrow> byte list" where
  "put_dirent dir_block slot ino filename =
     put_bytes dir_block (slot * 32) (dirent_bytes ino filename)"

definition data_record_bytes :: "u32 \<Rightarrow> byte list \<Rightarrow> byte list" where
  "data_record_bytes block_no payload = le16 REC_DATA @ le16 4104 @ le32 block_no @ payload"

definition commit_record_bytes :: "byte list" where
  "commit_record_bytes = le16 REC_COMMIT @ le16 4"

definition journal_header_bytes :: "u32 \<Rightarrow> u32 \<Rightarrow> byte list" where
  "journal_header_bytes magic nbytes_used = le32 magic @ le32 nbytes_used"

text \<open>
  The section "prepare the updated blocks in memory" of \<^verbatim>\<open>journal_create\<close>: the bit of
  the new inode is set, the inode is filled in (in the second inode block when its number is
  32 or more), the directory entry is written, and the size of the root inode (inode 0, at
  offset 4 of the first inode block) becomes 32 times the highest used entry plus one. The
  result is the bitmap, the two inode blocks and the directory block.
\<close>

definition prepare_blocks ::
  "u32 \<Rightarrow> byte list \<Rightarrow> byte list \<Rightarrow> byte list \<Rightarrow> byte list \<Rightarrow> nat \<Rightarrow> nat \<Rightarrow> byte list
     \<Rightarrow> byte list \<times> byte list \<times> byte list \<times> byte list" where
  "prepare_blocks current_time bitmap inode_block0 inode_block1 dir_block free_inode free_dirent filename =
    (let inode_in_block1 = (free_inode \<ge> INODES_PER_BLOCK);
         bitmap' = set_bit_at bitmap free_inode;
         block1' = (if inode_in_block1
                    then init_inode inode_block1 (free_inode - INODES_PER_BLOCK) current_time
                    else inode_block1);
         block0' = (if inode_in_block1 then inode_block0
                    else init_inode inode_block0 free_inode current_time);
         dir_block' = put_dirent dir_block free_dirent free_inode filename;
         block0'' = (case get_highest_dirent dir_block' of
                       None \<Rightarrow> block0'
                     | Some highest_used \<Rightarrow>
                         put_bytes block0' 4 (le32 (of_nat ((highest_used + 1) * 32))))
     in (bitmap', block0'', block1', dir_block'))"

text \<open>
  The section "now write to journal": the data records for the bitmap, the first inode
  block, the second inode block (only when the new inode is there) and the directory block,
  the commit record, and last the header with the new \<open>nbytes_used\<close>.
\<close>

definition write_transaction ::
  "superblock \<Rightarrow> disk_image \<Rightarrow> u32 \<Rightarrow> bool \<Rightarrow> u32
     \<Rightarrow> byte list \<Rightarrow> byte list \<Rightarrow> byte list \<Rightarrow> byte list \<Rightarrow> disk_image" where
  "write_transaction sb d nbytes_used inode_in_block1 root_dir_block bitmap block0 block1 dir_block =
    (let offset0 = nbytes_used;
         d1 = write_journal_bytes sb d offset0 (data_record_bytes (inode_bitmap sb) bitmap);
         offset1 = offset0 + 4104;
         d2 = write_journal_bytes sb d1 offset1 (data_record_bytes (inode_start sb) block0);
         offset2 = offset1 + 4104;
         d3 = (if inode_in_block1
               then write_journal_bytes sb d2 offset2 (data_record_bytes (inode_start sb + 1) block1)
               else d2);
         offset3 = (if inode_in_block1 then offset2 + 4104 else offset2);
         d4 = write_journal_bytes sb d3 offset3 (data_record_bytes root_dir_block dir_block);
         offset4 = offset3 + 4104;
         d5 = write_journal_bytes sb d4 offset4 commit_record_bytes;
         offset5 = offset4 + 4
     in write_journal_bytes sb d5 0 (journal_header_bytes JOURNAL_MAGIC offset5))"

text \<open>
  \<^verbatim>\<open>journal_create\<close>. \<open>current_time\<close> is the value of \<^verbatim>\<open>time(NULL)\<close>; \<open>filename\<close> is
  the characters of the C string (no NUL among them). The result is the image after the call
  and the inode number the success message prints. Every check precedes the first write, so
  an error leaves the image as it was.
\<close>

definition journal_create ::
  "superblock \<Rightarrow> u32 \<Rightarrow> disk_image \<Rightarrow> byte list \<Rightarrow> error + disk_image \<times> nat" where
  "journal_create sb current_time d filename =
    (if length filename > 27 then Inl NameTooLong else
     case read_journal_bytes sb d 0 8 of Inl e \<Rightarrow> Inl e | Inr jh \<Rightarrow>
     let nbytes_used = (if rd32 jh 0 \<noteq> JOURNAL_MAGIC then 8 else rd32 jh 4) in
     if nbytes_used + 16420 > 65536 then Inl JournalFull else
     case read_block d (inode_bitmap sb) of Inl e \<Rightarrow> Inl e | Inr bitmap \<Rightarrow>
     case find_free_inode bitmap of None \<Rightarrow> Inl NoFreeInodes | Some free_inode \<Rightarrow>
     case read_block d (inode_start sb) of Inl e \<Rightarrow> Inl e | Inr inode_block0 \<Rightarrow>
     case read_block d (inode_start sb + 1) of Inl e \<Rightarrow> Inl e | Inr inode_block1 \<Rightarrow>
     let root_dir_block = rd32 inode_block0 8 in
     case read_block d root_dir_block of Inl e \<Rightarrow> Inl e | Inr dir_block \<Rightarrow>
     case find_free_dirent dir_block filename of Inl e \<Rightarrow> Inl e | Inr free_dirent \<Rightarrow>
     case prepare_blocks current_time bitmap inode_block0 inode_block1 dir_block
            free_inode free_dirent filename of
       (bitmap', block0', block1', dir_block') \<Rightarrow>
         Inr (write_transaction sb d nbytes_used (free_inode \<ge> INODES_PER_BLOCK) root_dir_block
                bitmap' block0' block1' dir_block',
              free_inode))"

subsection \<open>The install command\<close>

text \<open>
  The pending writes of the transaction being scanned: \<^verbatim>\<open>write_blocks\<close> and
  \<^verbatim>\<open>write_data\<close>, which hold at most 16 entries.
\<close>

type_synonym pending = "(u32 \<times> byte list) list"

fun apply_pending :: "disk_image \<Rightarrow> pending \<Rightarrow> disk_image" where
  "apply_pending d [] = d"
| "apply_pending d ((block_no, buffer) # ws) = apply_pending (write_block d block_no buffer) ws"

text \<open>
  The scan loop of \<^verbatim>\<open>journal_install\<close>. \<open>journal_data\<close> is the buffer of \<open>nbytes_used\<close>
  bytes read from the journal. Reading a record header or a data record that is not wholly
  inside the buffer is undefined in C; the model stops with \<open>BufferOverread\<close> there.
  \<open>offset\<close> is a \<^verbatim>\<open>uint32_t\<close> and wraps, so the loop need not end: the result is
  \<open>None\<close> when it does not.
\<close>

partial_function (option) scan_records ::
  "byte list \<Rightarrow> u32 \<Rightarrow> u32 \<Rightarrow> pending \<Rightarrow> nat \<Rightarrow> disk_image
     \<Rightarrow> (error + disk_image \<times> pending \<times> nat) option" where
  "scan_records journal_data nbytes_used offset pend transactions d =
     (if \<not> offset < nbytes_used then Some (Inr (d, pend, transactions))
      else if length journal_data < unat offset + 4 then Some (Inl BufferOverread)
      else if rd16 journal_data (unat offset + 2) = 0
              \<or> offset + ucast (rd16 journal_data (unat offset + 2)) > nbytes_used
           then Some (Inr (d, pend, transactions))
      else if rd16 journal_data (unat offset) = REC_DATA then
        (if length pend < 16 then
           (if length journal_data < unat offset + 4104 then Some (Inl BufferOverread)
            else scan_records journal_data nbytes_used (offset + 4104)
                   (pend @ [(rd32 journal_data (unat offset + 4),
                              take BLOCK_SIZE (drop (unat offset + 8) journal_data))])
                   transactions d)
         else scan_records journal_data nbytes_used (offset + 4104) pend transactions d)
      else if rd16 journal_data (unat offset) = REC_COMMIT then
        scan_records journal_data nbytes_used (offset + 4) [] (transactions + 1)
          (apply_pending d pend)
      else Some (Inr (d, pend, transactions)))"

text \<open>
  \<^verbatim>\<open>journal_install\<close>. The result is the image after the call and the number of
  transactions the success message prints (0 on the two early returns).
\<close>

definition journal_install :: "superblock \<Rightarrow> disk_image \<Rightarrow> (error + disk_image \<times> nat) option" where
  "journal_install sb d =
    (case read_journal_bytes sb d 0 8 of Inl e \<Rightarrow> Some (Inl e) | Inr jh \<Rightarrow>
     if rd32 jh 0 \<noteq> JOURNAL_MAGIC then Some (Inr (d, 0))
     else if rd32 jh 4 \<le> 8 then Some (Inr (d, 0))
     else case read_journal_bytes sb d 0 (rd32 jh 4) of Inl e \<Rightarrow> Some (Inl e) | Inr journal_data \<Rightarrow>
       (case scan_records journal_data (rd32 jh 4) 8 [] 0 d of
          None \<Rightarrow> None
        | Some (Inl e) \<Rightarrow> Some (Inl e)
        | Some (Inr (d', pend, transactions)) \<Rightarrow>
            Some (Inr (write_journal_bytes sb d' 0 (journal_header_bytes (rd32 jh 0) 8),
                       transactions))))"

section \<open>The journal as a sequence of records\<close>

text \<open>
  A redo record as \<^verbatim>\<open>journal_create\<close> lays it out: \<^verbatim>\<open>struct data_record\<close> (type 1,
  size 4104, the block number, one block of payload) or \<^verbatim>\<open>struct commit_record\<close>
  (type 2, size 4).
\<close>

datatype jrec = DataRec u32 "byte list" | CommitRec

fun enc_rec :: "jrec \<Rightarrow> byte list" where
  "enc_rec (DataRec block_no payload) = data_record_bytes block_no payload"
| "enc_rec CommitRec = commit_record_bytes"

definition enc_recs :: "jrec list \<Rightarrow> byte list" where
  "enc_recs rs = concat (map enc_rec rs)"

fun wf_rec :: "jrec \<Rightarrow> bool" where
  "wf_rec (DataRec block_no payload) = (length payload = BLOCK_SIZE)"
| "wf_rec CommitRec = True"

fun is_data :: "jrec \<Rightarrow> bool" where
  "is_data (DataRec block_no payload) = True"
| "is_data CommitRec = False"

text \<open>\<open>nbytes_used\<close> of a journal that holds the records \<open>rs\<close> after its header.\<close>

definition used_bytes :: "jrec list \<Rightarrow> u32" where
  "used_bytes rs = of_nat (8 + length (enc_recs rs))"

text \<open>
  The journal of image \<open>d\<close> holds the records \<open>rs\<close>: its header has the magic, and
  \<open>nbytes_used\<close> bytes from the start of the journal are the header followed by the records.
\<close>

definition journal_holds :: "superblock \<Rightarrow> disk_image \<Rightarrow> jrec list \<Rightarrow> bool" where
  "journal_holds sb d rs \<longleftrightarrow>
     list_all wf_rec rs \<and> 8 + length (enc_recs rs) < 2 ^ 32 \<and>
     read_journal_bytes sb d 0 (used_bytes rs) =
       Inr (journal_header_bytes JOURNAL_MAGIC (used_bytes rs) @ enc_recs rs)"

text \<open>
  What the scan loop does with a sequence of records, record by record: a data record is
  buffered while fewer than 16 are pending, a commit record applies and clears the buffer.
\<close>

fun replay :: "disk_image \<Rightarrow> pending \<Rightarrow> nat \<Rightarrow> jrec list \<Rightarrow> disk_image \<times> pending \<times> nat" where
  "replay d pend n [] = (d, pend, n)"
| "replay d pend n (DataRec block_no payload # rs) =
     replay d (if length pend < 16 then pend @ [(block_no, payload)] else pend) n rs"
| "replay d pend n (CommitRec # rs) = replay (apply_pending d pend) [] (n + 1) rs"

text \<open>The last step of \<^verbatim>\<open>journal_install\<close> ("clear journal"): the header is written with \<open>nbytes_used = 8\<close>.\<close>

definition clear_journal :: "superblock \<Rightarrow> disk_image \<Rightarrow> disk_image" where
  "clear_journal sb d = write_journal_bytes sb d 0 (journal_header_bytes JOURNAL_MAGIC 8)"




text \<open>A record whose target block lies inside the image of \<open>total_blocks\<close> blocks.\<close>

fun target_in_range :: "superblock \<Rightarrow> jrec \<Rightarrow> bool" where
  "target_in_range sb (DataRec block_no payload) = (block_no < total_blocks sb)"
| "target_in_range sb CommitRec = True"


text \<open>
  The records that \<open>write_transaction\<close> appends, in order: the transaction of one create.
\<close>

definition transaction_records ::
  "superblock \<Rightarrow> bool \<Rightarrow> u32 \<Rightarrow> byte list \<Rightarrow> byte list \<Rightarrow> byte list \<Rightarrow> byte list \<Rightarrow> jrec list" where
  "transaction_records sb inode_in_block1 root_dir_block bitmap block0 block1 dir_block =
     [DataRec (inode_bitmap sb) bitmap, DataRec (inode_start sb) block0]
       @ (if inode_in_block1 then [DataRec (inode_start sb + 1) block1] else [])
       @ [DataRec root_dir_block dir_block, CommitRec]"

text \<open>
  The journal region of 16 blocks lies inside the image and is addressable in 32 bits.
\<close>

definition journal_fits :: "superblock \<Rightarrow> disk_image \<Rightarrow> bool" where
  "journal_fits sb d \<longleftrightarrow>
     unat (journal_block sb) * BLOCK_SIZE + JOURNAL_BLOCKS * BLOCK_SIZE \<le> fsize d \<and>
     unat (journal_block sb) * BLOCK_SIZE + JOURNAL_BLOCKS * BLOCK_SIZE \<le> 2 ^ 32"


text \<open>
  Image \<open>d'\<close> has the size of \<open>d\<close> and agrees with it on every byte outside the 16 blocks
  of the journal.
\<close>

definition same_outside_journal :: "superblock \<Rightarrow> disk_image \<Rightarrow> disk_image \<Rightarrow> bool" where
  "same_outside_journal sb d d' \<longleftrightarrow>
     fsize d' = fsize d \<and>
     (\<forall>a. a < unat (journal_block sb) * BLOCK_SIZE
           \<or> unat (journal_block sb) * BLOCK_SIZE + JOURNAL_BLOCKS * BLOCK_SIZE \<le> a
         \<longrightarrow> contents d' a = contents d a)"

text \<open>
  The journal of \<open>d\<close> is in a state \<open>journal_create\<close> appends to: a header without the magic
  (then it holds no record), or a journal that holds the records \<open>rs\<close>.
\<close>

definition journal_log :: "superblock \<Rightarrow> disk_image \<Rightarrow> jrec list \<Rightarrow> bool" where
  "journal_log sb d rs \<longleftrightarrow>
     (rs = [] \<and> (\<exists>jh. read_journal_bytes sb d 0 8 = Inr jh \<and> rd32 jh 0 \<noteq> JOURNAL_MAGIC))
     \<or> journal_holds sb d rs"


text \<open>
  The three ways the scan loop of \<^verbatim>\<open>journal_install\<close> ends at \<open>offset\<close>, where the bytes
  \<open>rest\<close> of the used region remain: nothing remains (\<open>offset = nbytes_used\<close>); the safety
  check finds a record size of 0 or a record that runs past \<open>nbytes_used\<close>; or the record
  type is neither data nor commit.
\<close>

definition scan_stops :: "byte list \<Rightarrow> u32 \<Rightarrow> u32 \<Rightarrow> bool" where
  "scan_stops rest offset nbytes_used \<longleftrightarrow>
     rest = [] \<or>
     (4 \<le> length rest \<and>
      (rd16 rest 2 = 0 \<or> offset + ucast (rd16 rest 2) > nbytes_used
       \<or> (rd16 rest 0 \<noteq> REC_DATA \<and> rd16 rest 0 \<noteq> REC_COMMIT)))"

text \<open>\<open>nbytes_used\<close> of a journal whose used region is the header, the records \<open>rs\<close> and the bytes \<open>rest\<close>.\<close>

definition region_bytes :: "jrec list \<Rightarrow> byte list \<Rightarrow> u32" where
  "region_bytes rs rest = of_nat (8 + length (enc_recs rs) + length rest)"

text \<open>
  The used region of the journal of \<open>d\<close> is the header, the records \<open>rs\<close> and then the
  bytes \<open>rest\<close>, at which the scan loop stops.
\<close>

definition journal_region :: "superblock \<Rightarrow> disk_image \<Rightarrow> jrec list \<Rightarrow> byte list \<Rightarrow> bool" where
  "journal_region sb d rs rest \<longleftrightarrow>
     list_all wf_rec rs \<and> 8 + length (enc_recs rs) + length rest < 2 ^ 32 \<and>
     read_journal_bytes sb d 0 (region_bytes rs rest) =
       Inr (journal_header_bytes JOURNAL_MAGIC (region_bytes rs rest) @ enc_recs rs @ rest) \<and>
     scan_stops rest (used_bytes rs) (region_bytes rs rest)"

text \<open>A record that, once committed, is written at the file position of block \<open>b\<close>.\<close>

fun writes_block :: "jrec \<Rightarrow> u32 \<Rightarrow> bool" where
  "writes_block (DataRec block_no payload) b = (block_no * 4096 = b * 4096)"
| "writes_block CommitRec b = False"


section \<open>Views of the metadata blocks\<close>

text \<open>
  Entry \<open>i\<close> of a directory block (\<^verbatim>\<open>struct dirent\<close>: the inode number, then 28 bytes of
  name): whether the code takes it as used (\<^verbatim>\<open>name[0] != '\0'\<close>), the name as a C string,
  and the inode number.
\<close>

definition dirent_used :: "byte list \<Rightarrow> nat \<Rightarrow> bool" where
  "dirent_used dir_block i = (dir_block ! (i * 32 + 4) \<noteq> 0)"

definition dirent_name :: "byte list \<Rightarrow> nat \<Rightarrow> byte list" where
  "dirent_name dir_block i = takeWhile (\<lambda>c. c \<noteq> 0) (take 28 (drop (i * 32 + 4) dir_block))"

definition dirent_inode :: "byte list \<Rightarrow> nat \<Rightarrow> u32" where
  "dirent_inode dir_block i = rd32 dir_block (i * 32)"

text \<open>
  Fields of inode \<open>i\<close> of an inode table (\<^verbatim>\<open>struct inode\<close>, 128 bytes: type at 0, links
  at 2, size at 4, the direct pointers from 8).
\<close>

definition inode_type :: "byte list \<Rightarrow> nat \<Rightarrow> u16" where
  "inode_type table i = rd16 table (i * 128)"

definition inode_size :: "byte list \<Rightarrow> nat \<Rightarrow> u32" where
  "inode_size table i = rd32 table (i * 128 + 4)"

definition inode_direct :: "byte list \<Rightarrow> nat \<Rightarrow> nat \<Rightarrow> u32" where
  "inode_direct table i j = rd32 table (i * 128 + 8 + j * 4)"


section \<open>Consistency of the installed metadata\<close>

text \<open>
  The inode bitmap agrees with the inode table (the two inode blocks, one after the other):
  for each of the 64 inodes, the bit is 1 exactly when the type field is not \<open>INODE_FREE\<close>.
\<close>

definition bitmap_agrees :: "byte list \<Rightarrow> byte list \<Rightarrow> bool" where
  "bitmap_agrees bitmap table \<longleftrightarrow>
     (\<forall>i<MAX_INODES. \<not> bit_clear bitmap i \<longleftrightarrow> inode_type table i \<noteq> INODE_FREE)"

definition image_agrees :: "superblock \<Rightarrow> disk_image \<Rightarrow> bool" where
  "image_agrees sb d \<longleftrightarrow>
     (\<exists>bitmap block0 block1.
        read_block d (inode_bitmap sb) = Inr bitmap \<and>
        read_block d (inode_start sb) = Inr block0 \<and>
        read_block d (inode_start sb + 1) = Inr block1 \<and>
        bitmap_agrees bitmap (block0 @ block1))"

text \<open>
  The metadata blocks of a formatted image: the bitmap block, the two inode blocks and the
  root directory block \<open>root\<close> have numbers below \<open>2 ^ 20\<close> (so that
  \<open>block_no * 4096\<close> does not wrap), lie outside the journal and are pairwise distinct.
\<close>

definition metadata_layout :: "superblock \<Rightarrow> u32 \<Rightarrow> bool" where
  "metadata_layout sb root \<longleftrightarrow>
     distinct [inode_bitmap sb, inode_start sb, inode_start sb + 1, root] \<and>
     list_all (\<lambda>b. unat b < 2 ^ 20 \<and>
                    (unat b < unat (journal_block sb) \<or> unat (journal_block sb) + 16 \<le> unat b))
       [inode_bitmap sb, inode_start sb, inode_start sb + 1, root]"

text \<open>
  A formatted image, as far as the journal code reads it: the journal fits and holds no
  record, and the bitmap block, the inode blocks and the root directory block named by the
  first direct pointer of inode 0 can be read and are laid out as above.
\<close>

definition formatted :: "superblock \<Rightarrow> disk_image \<Rightarrow> bool" where
  "formatted sb d \<longleftrightarrow>
     journal_fits sb d \<and> journal_log sb d [] \<and>
     (\<exists>bitmap block0 block1 dir_block.
        read_block d (inode_bitmap sb) = Inr bitmap \<and>
        read_block d (inode_start sb) = Inr block0 \<and>
        read_block d (inode_start sb + 1) = Inr block1 \<and>
        read_block d (rd32 block0 8) = Inr dir_block \<and>
        metadata_layout sb (rd32 block0 8))"

text \<open>
  The two commands of \<^verbatim>\<open>main\<close>, run one after the other on the image. A command that
  fails leaves the image as it was (every check precedes the first write); the result is
  \<open>None\<close> when an install does not return.
\<close>

datatype command = Create "byte list" u32 | Install

fun run_commands :: "superblock \<Rightarrow> command list \<Rightarrow> disk_image \<Rightarrow> disk_image option" where
  "run_commands sb [] d = Some d"
| "run_commands sb (Create filename current_time # cs) d =
     (case journal_create sb current_time d filename of
        Inl e \<Rightarrow> run_commands sb cs d
      | Inr (d', ino) \<Rightarrow> run_commands sb cs d')"
| "run_commands sb (Install # cs) d =
     (case journal_install sb d of
        None \<Rightarrow> None
      | Some (Inl e) \<Rightarrow> run_commands sb cs d
      | Some (Inr (d', n)) \<Rightarrow> run_commands sb cs d')"

text \<open>
  The blocks one create stages (bitmap, first and second inode block, directory block), the
  transaction that logs them for the new inode \<open>k\<close>, and what the invariant below keeps
  of them: they have the block size, the staged bitmap agrees with the staged inode table,
  the root pointer is \<open>root\<close>, and the second inode block is the one on disk (\<open>block1\<close>)
  when the transaction does not log it.
\<close>

type_synonym staged_blocks = "byte list \<times> byte list \<times> byte list \<times> byte list"

fun txn_of :: "superblock \<Rightarrow> nat \<Rightarrow> u32 \<Rightarrow> staged_blocks \<Rightarrow> jrec list" where
  "txn_of sb k root (bitmap', block0', block1', dir_block') =
     transaction_records sb (INODES_PER_BLOCK \<le> k) root bitmap' block0' block1' dir_block'"

fun good_blocks :: "byte list \<Rightarrow> nat \<Rightarrow> u32 \<Rightarrow> staged_blocks \<Rightarrow> bool" where
  "good_blocks block1 k root (bitmap', block0', block1', dir_block') \<longleftrightarrow>
     length bitmap' = BLOCK_SIZE \<and> length block0' = BLOCK_SIZE \<and>
     length block1' = BLOCK_SIZE \<and> length dir_block' = BLOCK_SIZE \<and>
     bitmap_agrees bitmap' (block0' @ block1') \<and> rd32 block0' 8 = root \<and>
     (k < INODES_PER_BLOCK \<longrightarrow> block1' = block1)"

text \<open>
  The invariant of \<open>run_commands\<close>: the image is laid out as a formatted one, its bitmap agrees with
  its inode table, and its journal holds a sequence of transactions staged by creates from
  the metadata now on disk (all for the same free inode \<open>k\<close>).
\<close>

definition invariant :: "superblock \<Rightarrow> disk_image \<Rightarrow> bool" where
  "invariant sb d \<longleftrightarrow>
     journal_fits sb d \<and>
     (\<exists>bitmap block0 block1 dir_block staged k.
        read_block d (inode_bitmap sb) = Inr bitmap \<and>
        read_block d (inode_start sb) = Inr block0 \<and>
        read_block d (inode_start sb + 1) = Inr block1 \<and>
        read_block d (rd32 block0 8) = Inr dir_block \<and>
        metadata_layout sb (rd32 block0 8) \<and>
        bitmap_agrees bitmap (block0 @ block1) \<and>
        journal_log sb d (concat (map (txn_of sb k (rd32 block0 8)) staged)) \<and>
        8 + length (enc_recs (concat (map (txn_of sb k (rd32 block0 8)) staged)))
          \<le> JOURNAL_BLOCKS * BLOCK_SIZE \<and>
        (staged \<noteq> [] \<longrightarrow> find_free_inode bitmap = Some k) \<and>
        list_all (good_blocks block1 k (rd32 block0 8)) staged)"


section \<open>The program\<close>

abbreviation (input) SUPERBLOCK_MAGIC :: u32 where "SUPERBLOCK_MAGIC \<equiv> 0x56534653"

text \<open>
  \<^verbatim>\<open>open_disk\<close> reads block 0 into the global \<^verbatim>\<open>sb\<close> and checks its magic
  (\<^verbatim>\<open>struct superblock\<close>: magic at 0, \<open>total_blocks\<close> at 8, \<open>journal_block\<close> at 16,
  \<open>inode_bitmap\<close> at 20, \<open>inode_start\<close> at 28). The image file is taken to exist.
\<close>

definition open_disk :: "disk_image \<Rightarrow> error + superblock" where
  "open_disk d =
     (case read_block d 0 of Inl e \<Rightarrow> Inl e | Inr buf \<Rightarrow>
        if rd32 buf 0 \<noteq> SUPERBLOCK_MAGIC then Inl BadSuperblock
        else Inr \<lparr>total_blocks = rd32 buf 8, journal_block = rd32 buf 16,
                  inode_bitmap = rd32 buf 20, inode_start = rd32 buf 28\<rparr>)"

text \<open>
  One run of the program, \<^verbatim>\<open>main\<close>: it opens the image, which reads the superblock
  anew, and then runs the command. The result is that of the command (for create the
  image and the inode number, for install the image and the number of transactions).
\<close>

definition main :: "command \<Rightarrow> disk_image \<Rightarrow> (error + disk_image \<times> nat) option" where
  "main cmd d =
     (case open_disk d of Inl e \<Rightarrow> Some (Inl e) | Inr sb \<Rightarrow>
        (case cmd of
           Create filename current_time \<Rightarrow> Some (journal_create sb current_time d filename)
         | Install \<Rightarrow> journal_install sb d))"


section \<open>Example images\<close>

text \<open>
  The layout the README gives for a fresh image: 85 blocks of 4 KB, a 16-block journal from
  block 1, the inode bitmap in block 17, the data bitmap in block 18, the inode table in
  blocks 19 and 20, data blocks from block 21. \<open>image_with_journal sb d rs\<close> is the image
  \<open>d\<close> with a journal that holds the records \<open>rs\<close>.
\<close>

definition example_sb :: superblock where
  "example_sb = \<lparr>total_blocks = 85, journal_block = 1, inode_bitmap = 17, inode_start = 19\<rparr>"

definition zero_image :: disk_image where
  "zero_image = \<lparr>contents = (\<lambda>a. 0), fsize = 85 * 4096\<rparr>"

definition image_with_journal :: "superblock \<Rightarrow> disk_image \<Rightarrow> jrec list \<Rightarrow> disk_image" where
  "image_with_journal sb d rs =
     write_journal_bytes sb d 0 (journal_header_bytes JOURNAL_MAGIC (used_bytes rs) @ enc_recs rs)"


text \<open>
  A fresh image of that layout, as the journal code reads it: inode 0 is allocated in the
  bitmap, it is a directory (type 2) of size 64 whose first direct pointer is block 21, and
  block 21 holds the entries \<^verbatim>\<open>.\<close> and \<^verbatim>\<open>..\<close> followed by unused entries. The journal
  is all zero.
\<close>

definition example_bitmap :: "byte list" where
  "example_bitmap = 1 # replicate 4095 0"

definition example_inode_block0 :: "byte list" where
  "example_inode_block0 = le16 2 @ le16 2 @ le32 64 @ le32 21 @ replicate 4084 0"

definition example_dir_block :: "byte list" where
  "example_dir_block = dirent_bytes 0 [0x2E] @ dirent_bytes 0 [0x2E, 0x2E] @ replicate 4032 0"

definition fresh_image :: disk_image where
  "fresh_image =
     write_block (write_block (write_block zero_image 17 example_bitmap) 19 example_inode_block0)
       21 example_dir_block"

text \<open>The file name \<^verbatim>\<open>a.txt\<close>.\<close>

definition a_txt :: "byte list" where
  "a_txt = [0x61, 0x2E, 0x74, 0x78, 0x74]"


text \<open>The file name \<^verbatim>\<open>f<c>.txt\<close> for a character \<open>c\<close>: \<open>f_txt 0x31\<close> is \<^verbatim>\<open>f1.txt\<close>.\<close>

definition f_txt :: "byte \<Rightarrow> byte list" where
  "f_txt c = [0x66, c, 0x2E, 0x74, 0x78, 0x74]"



text \<open>
  \<open>image_with_region sb d rs rest\<close> is the image \<open>d\<close> with a journal whose used region is
  the header, the records \<open>rs\<close> and the bytes \<open>rest\<close>. \<open>truncated_record\<close> is the start
  of a data record for block 32: its header announces 4104 bytes, 108 are there.
\<close>

definition image_with_region :: "superblock \<Rightarrow> disk_image \<Rightarrow> jrec list \<Rightarrow> byte list \<Rightarrow> disk_image" where
  "image_with_region sb d rs rest =
     write_journal_bytes sb d 0
       (journal_header_bytes JOURNAL_MAGIC (region_bytes rs rest) @ enc_recs rs @ rest)"

definition truncated_record :: "byte list" where
  "truncated_record = le16 REC_DATA @ le16 4104 @ le32 32 @ replicate 100 3"

text \<open>
  A block 0 of that layout whose journal starts at block \<open>j\<close>; an image of 85 blocks that
  holds only the superblock; and an image whose journal at block 1 holds one committed
  record for block 0, a superblock that places the journal at block 40, where a second
  journal holds one committed record for block 30.
\<close>

definition example_superblock :: "u32 \<Rightarrow> byte list" where
  "example_superblock j =
     le32 SUPERBLOCK_MAGIC @ le32 4096 @ le32 85 @ le32 64 @ le32 j @ le32 17 @ le32 18
       @ le32 19 @ le32 21 @ replicate 4060 0"

definition superblock_image :: disk_image where
  "superblock_image = write_block zero_image 0 (example_superblock 1)"

definition redirect_image :: disk_image where
  "redirect_image =
     image_with_journal example_sb
       (image_with_journal (example_sb\<lparr>journal_block := 40\<rparr>) superblock_image
          [DataRec 30 (replicate 4096 1), CommitRec])
       [DataRec 0 (example_superblock 40), CommitRec]"

text \<open>
  The fresh image with a journal header that has the magic and \<open>nbytes_used = 0xFFFFF000\<close>.
\<close>

definition wrapped_image :: disk_image where
  "wrapped_image =
     write_journal_bytes example_sb fresh_image 0 (journal_header_bytes JOURNAL_MAGIC 0xFFFFF000)"


section \<open>Basic facts\<close>

subsection \<open>Fields and buffers\<close>

lemma length_le16 [simp]: "length (le16 w) = 2" by (simp add: le16_def)
lemma length_le32 [simp]: "length (le32 w) = 4" by (simp add: le32_def)

lemma rd16_le16_0: "rd16 (le16 w @ ys) 0 = w"
  apply (simp add: rd16_def le16_def)
  apply (rule bit_word_eqI)
  apply (auto simp add: bit_simps)
  done

lemma rd32_le32_0: "rd32 (le32 w @ ys) 0 = w"
  apply (simp add: rd32_def le32_def)
  apply (rule bit_word_eqI)
  subgoal for n
    apply (cases "n < 8"; cases "n < 16"; cases "n < 24")
    apply (auto simp add: bit_simps)
    done
  done

lemma rd16_eqI:
  "a ! i = b ! j \<Longrightarrow> a ! (i + 1) = b ! (j + 1) \<Longrightarrow> rd16 a i = rd16 b j"
  by (simp add: rd16_def)

lemma rd32_eqI:
  "a ! i = b ! j \<Longrightarrow> a ! (i + 1) = b ! (j + 1) \<Longrightarrow> a ! (i + 2) = b ! (j + 2)
    \<Longrightarrow> a ! (i + 3) = b ! (j + 3) \<Longrightarrow> rd32 a i = rd32 b j"
  by (simp add: rd32_def)

lemma rd16_append_right: "rd16 (xs @ ys) (length xs + k) = rd16 ys k"
  by (rule rd16_eqI) (simp_all add: nth_append)

lemma rd32_append_right: "rd32 (xs @ ys) (length xs + k) = rd32 ys k"
  by (rule rd32_eqI) (simp_all add: nth_append)

lemma rd16_append_left: "k + 2 \<le> length xs \<Longrightarrow> rd16 (xs @ ys) k = rd16 xs k"
  by (rule rd16_eqI) (simp_all add: nth_append)

lemma rd32_append_left: "k + 4 \<le> length xs \<Longrightarrow> rd32 (xs @ ys) k = rd32 xs k"
  by (rule rd32_eqI) (simp_all add: nth_append)

lemma length_put_bytes [simp]:
  "off + length new \<le> length buf \<Longrightarrow> length (put_bytes buf off new) = length buf"
  by (simp add: put_bytes_def)

lemma nth_put_bytes:
  "off + length new \<le> length buf \<Longrightarrow> i < length buf \<Longrightarrow>
   put_bytes buf off new ! i = (if off \<le> i \<and> i < off + length new then new ! (i - off) else buf ! i)"
  by (auto simp add: put_bytes_def nth_append min_def)

lemma rd16_put_bytes_outside:
  "off + length new \<le> length buf \<Longrightarrow> k + 2 \<le> length buf \<Longrightarrow>
   k + 2 \<le> off \<or> off + length new \<le> k \<Longrightarrow> rd16 (put_bytes buf off new) k = rd16 buf k"
  by (rule rd16_eqI) (auto simp add: nth_put_bytes)

lemma rd32_put_bytes_outside:
  "off + length new \<le> length buf \<Longrightarrow> k + 4 \<le> length buf \<Longrightarrow>
   k + 4 \<le> off \<or> off + length new \<le> k \<Longrightarrow> rd32 (put_bytes buf off new) k = rd32 buf k"
  by (rule rd32_eqI) (auto simp add: nth_put_bytes)

lemma rd16_put_bytes_inside:
  "off + length new \<le> length buf \<Longrightarrow> k + 2 \<le> length new \<Longrightarrow>
   rd16 (put_bytes buf off new) (off + k) = rd16 new k"
  by (rule rd16_eqI) (auto simp add: nth_put_bytes)

lemma rd32_put_bytes_inside:
  "off + length new \<le> length buf \<Longrightarrow> k + 4 \<le> length new \<Longrightarrow>
   rd32 (put_bytes buf off new) (off + k) = rd32 new k"
  by (rule rd32_eqI) (auto simp add: nth_put_bytes)

lemma bit_clear_iff: "bit_clear bm i \<longleftrightarrow> \<not> bit (bm ! (i div 8)) (i mod 8)"
  by (simp add: bit_clear_def and_exp_eq_0_iff_not_bit)

lemma length_set_bit_at [simp]: "length (set_bit_at bm k) = length bm"
  by (simp add: set_bit_at_def)

lemma div_mod_8_eq: "i div 8 = k div 8 \<Longrightarrow> i mod 8 = k mod 8 \<Longrightarrow> i = (k::nat)"
  by (metis div_mult_mod_eq)

lemma bit_or_exp_byte: "j < 8 \<Longrightarrow> bit ((w::byte) OR 2 ^ j) n \<longleftrightarrow> bit w n \<or> n = j"
  by (auto simp add: bit_or_iff bit_exp_iff)

lemma bit_clear_set_bit_at:
  "i div 8 < length bm \<Longrightarrow> bit_clear (set_bit_at bm k) i \<longleftrightarrow> i \<noteq> k \<and> bit_clear bm i"
proof (cases "i div 8 = k div 8")
  case True
  assume "i div 8 < length bm"
  with True show ?thesis
    by (auto simp add: bit_clear_iff set_bit_at_def bit_or_exp_byte dest: div_mod_8_eq)
next
  case False
  then have "i \<noteq> k" by auto
  with False show ?thesis
    by (simp add: bit_clear_iff set_bit_at_def)
qed

subsection \<open>Reading and writing the file\<close>

lemma fsize_file_write [simp]: "fsize (file_write d pos buf) = max (fsize d) (pos + length buf)"
  by (simp add: file_write_def)

lemma contents_file_write:
  "contents (file_write d pos buf) a =
     (if pos \<le> a \<and> a < pos + length buf then buf ! (a - pos)
      else if fsize d \<le> a \<and> a < pos then 0 else contents d a)"
  by (simp add: file_write_def)

lemma file_read_Inr_iff:
  "file_read d pos n = Inr xs \<longleftrightarrow> n \<noteq> 0 \<and> pos + n \<le> fsize d \<and> xs = map (contents d) [pos..<pos + n]"
  by (auto simp add: file_read_def)

lemma file_read_Inl_iff:
  "file_read d pos n = Inl e \<longleftrightarrow> e = IoFailure \<and> (n = 0 \<or> fsize d < pos + n)"
  by (auto simp add: file_read_def)

lemma file_read_length: "file_read d pos n = Inr xs \<Longrightarrow> length xs = n"
  by (auto simp add: file_read_Inr_iff)

lemma file_read_write_same:
  "buf \<noteq> [] \<Longrightarrow> file_read (file_write d pos buf) pos (length buf) = Inr buf"
  by (auto simp add: file_read_Inr_iff contents_file_write intro!: nth_equalityI)

lemma file_read_write_other:
  "q + n \<le> pos \<or> pos + length buf \<le> q \<Longrightarrow> q + n \<le> fsize d \<Longrightarrow>
   file_read (file_write d pos buf) q n = file_read d q n"
  by (auto simp add: file_read_def contents_file_write)

lemma file_read_take:
  "file_read d pos n = Inr xs \<Longrightarrow> 0 < m \<Longrightarrow> m \<le> n \<Longrightarrow> file_read d pos m = Inr (take m xs)"
  by (auto simp add: file_read_Inr_iff take_map intro!: nth_equalityI)

lemma file_read_drop:
  "file_read d pos n = Inr xs \<Longrightarrow> m < n \<Longrightarrow> file_read d (pos + m) (n - m) = Inr (drop m xs)"
  by (auto simp add: file_read_Inr_iff drop_map intro!: nth_equalityI)

subsection \<open>Records in a buffer\<close>

lemma length_data_record_bytes [simp]: "length (data_record_bytes b x) = 8 + length x"
  by (simp add: data_record_bytes_def)

lemma length_commit_record_bytes [simp]: "length commit_record_bytes = 4"
  by (simp add: commit_record_bytes_def)

lemma length_journal_header_bytes [simp]: "length (journal_header_bytes m u) = 8"
  by (simp add: journal_header_bytes_def)

lemma length_enc_rec: "wf_rec r \<Longrightarrow> length (enc_rec r) = (if is_data r then 4104 else 4)"
  by (cases r) simp_all

lemma enc_recs_simps [simp]:
  "enc_recs [] = []" "enc_recs (r # rs) = enc_rec r @ enc_recs rs"
  "enc_recs (rs @ rs') = enc_recs rs @ enc_recs rs'"
  by (simp_all add: enc_recs_def)

lemma rd16_le16_at: "rd16 (xs @ le16 w @ ys) (length xs) = w"
  using rd16_append_right [of xs "le16 w @ ys" 0] by (simp add: rd16_le16_0)

lemma rd32_le32_at: "rd32 (xs @ le32 w @ ys) (length xs) = w"
  using rd32_append_right [of xs "le32 w @ ys" 0] by (simp add: rd32_le32_0)

lemma data_record_fields:
  "rd16 (pre @ data_record_bytes b x @ post) (length pre) = 1"
  "rd16 (pre @ data_record_bytes b x @ post) (length pre + 2) = 4104"
  "rd32 (pre @ data_record_bytes b x @ post) (length pre + 4) = b"
  "take (length x) (drop (length pre + 8) (pre @ data_record_bytes b x @ post)) = x"
proof -
  show "rd16 (pre @ data_record_bytes b x @ post) (length pre) = 1"
    using rd16_le16_at [of pre 1] by (simp add: data_record_bytes_def)
  show "rd16 (pre @ data_record_bytes b x @ post) (length pre + 2) = 4104"
    using rd16_le16_at [of "pre @ le16 1" 4104] by (simp add: data_record_bytes_def)
  show "rd32 (pre @ data_record_bytes b x @ post) (length pre + 4) = b"
    using rd32_le32_at [of "pre @ le16 1 @ le16 4104" b] by (simp add: data_record_bytes_def)
  show "take (length x) (drop (length pre + 8) (pre @ data_record_bytes b x @ post)) = x"
    by (simp add: data_record_bytes_def)
qed

lemma commit_record_fields:
  "rd16 (pre @ commit_record_bytes @ post) (length pre) = 2"
  "rd16 (pre @ commit_record_bytes @ post) (length pre + 2) = 4"
proof -
  show "rd16 (pre @ commit_record_bytes @ post) (length pre) = 2"
    using rd16_le16_at [of pre 2] by (simp add: commit_record_bytes_def)
  show "rd16 (pre @ commit_record_bytes @ post) (length pre + 2) = 4"
    using rd16_le16_at [of "pre @ le16 2" 4] by (simp add: commit_record_bytes_def)
qed

lemma unat_off_plus:
  fixes off used :: u32
  assumes "unat off + k \<le> unat used"
  shows "unat (off + of_nat k) = unat off + k"
proof -
  have u: "unat used < 2 ^ 32" using unsigned_less [of used] by simp
  with assms have k: "unat (of_nat k :: u32) = k" by (simp add: unat_of_nat)
  have "unat off + unat (of_nat k :: u32) < 2 ^ LENGTH(32)" using assms u k by simp
  then show ?thesis using k by (simp add: unat_add_lem [THEN iffD1])
qed

lemma word_less_unat: "(a :: u32) < b \<longleftrightarrow> unat a < unat b"
  by (simp add: word_less_nat_alt)

subsection \<open>The scan loop on a sequence of records\<close>

lemma scan_records_enc:
  assumes "list_all wf_rec rs" "buf = pre @ enc_recs rs" "length buf = unat used"
    "unat off = length pre"
  shows "scan_records buf used off pend n d = Some (Inr (replay d pend n rs))"
  using assms
proof (induction rs arbitrary: pre off pend n d)
  case Nil
  then have "unat off = unat used" by simp
  then have "\<not> off < used" by (simp add: word_less_nat_alt)
  then show ?case by (subst scan_records.simps) simp
next
  case (Cons r rs)
  show ?case
  proof (cases r)
    case (DataRec b x)
    with Cons.prems have x: "length x = 4096" by simp
    have buf: "buf = pre @ data_record_bytes b x @ enc_recs rs"
      using Cons.prems DataRec by simp
    have len: "unat off + 4104 \<le> unat used"
      using Cons.prems(3,4) buf x by simp
    have lt: "off < used" using len by (simp add: word_less_nat_alt)
    have step: "unat (off + 4104) = unat off + 4104"
      using unat_off_plus [of off 4104 used] len by simp
    have nogt: "\<not> off + 4104 > used"
      using step len by (simp add: word_less_nat_alt)
    have f1: "rd16 buf (unat off) = 1" "rd16 buf (unat off + 2) = 4104"
      "rd32 buf (unat off + 4) = b" "take 4096 (drop (unat off + 8) buf) = x"
      using data_record_fields [where pre=pre and b=b and x=x and post="enc_recs rs"] x
      by (simp_all add: buf Cons.prems(4))
    have IH: "scan_records buf used (off + 4104) pend' n d = Some (Inr (replay d pend' n rs))" for pend'
      using Cons.IH [of "pre @ enc_rec r" "off + 4104" pend' n d] Cons.prems step x DataRec
      by simp
    have lb: "\<not> length buf < unat off + 4" "\<not> length buf < unat off + 4104"
      using Cons.prems(3) len by simp_all
    have f2: "rd16 buf (Suc (Suc (unat off))) = 4104" using f1(2) by simp
    show ?thesis
      apply (subst scan_records.simps)
      apply (simp add: lt lb f1 f2 nogt IH DataRec)
      done
  next
    case CommitRec
    have buf: "buf = pre @ commit_record_bytes @ enc_recs rs"
      using Cons.prems CommitRec by simp
    have len: "unat off + 4 \<le> unat used"
      using Cons.prems(3,4) buf by simp
    have lt: "off < used" using len by (simp add: word_less_nat_alt)
    have step: "unat (off + 4) = unat off + 4"
      using unat_off_plus [of off 4 used] len by simp
    have nogt: "\<not> off + 4 > used"
      using step len by (simp add: word_less_nat_alt)
    have f1: "rd16 buf (unat off) = 2" "rd16 buf (unat off + 2) = 4"
      using commit_record_fields [where pre=pre and post="enc_recs rs"]
      by (simp_all add: buf Cons.prems(4))
    have IH: "scan_records buf used (off + 4) [] (Suc n) d' = Some (Inr (replay d' [] (Suc n) rs))" for d'
      using Cons.IH [of "pre @ enc_rec r" "off + 4" "[]" "Suc n" d'] Cons.prems step CommitRec
      by simp
    have lb: "\<not> length buf < unat off + 4"
      using Cons.prems(3) len by simp
    have f2: "rd16 buf (Suc (Suc (unat off))) = 4" using f1(2) by simp
    show ?thesis
      apply (subst scan_records.simps)
      apply (simp add: lt lb f1 f2 nogt IH CommitRec)
      done
  qed
qed

subsection \<open>Install on a journal that holds records\<close>

lemma journal_header_fields [simp]:
  "rd32 (journal_header_bytes m u @ xs) 0 = m" "rd32 (journal_header_bytes m u @ xs) 4 = u"
proof -
  show "rd32 (journal_header_bytes m u @ xs) 0 = m"
    using rd32_le32_at [of "[]" m "le32 u @ xs"] by (simp add: journal_header_bytes_def)
  show "rd32 (journal_header_bytes m u @ xs) 4 = u"
    using rd32_le32_at [of "le32 m" u xs] by (simp add: journal_header_bytes_def)
qed

lemma journal_header_fields' [simp]:
  "rd32 (journal_header_bytes m u) 0 = m" "rd32 (journal_header_bytes m u) 4 = u"
  using journal_header_fields [of m u "[]"] by simp_all

lemma read_header_after_reset:
  "read_journal_bytes sb (write_journal_bytes sb d 0 (journal_header_bytes m u)) 0 8
     = Inr (journal_header_bytes m u)"
proof -
  have "journal_header_bytes m u \<noteq> []" by (simp add: journal_header_bytes_def le32_def)
  from file_read_write_same [OF this, of d "unat (journal_block sb * 4096)"]
  show ?thesis by (simp add: read_journal_bytes_def write_journal_bytes_def)
qed

lemma install_empty:
  "read_journal_bytes sb d 0 8 = Inr jh \<Longrightarrow> rd32 jh 0 \<noteq> JOURNAL_MAGIC \<or> rd32 jh 4 \<le> 8 \<Longrightarrow>
   journal_install sb d = Some (Inr (d, 0))"
  by (auto simp add: journal_install_def)

lemma install_twice:
  assumes "journal_install sb d = Some (Inr (d1, n))"
  shows "journal_install sb d1 = Some (Inr (d1, 0))"
proof -
  from assms obtain jh where jh: "read_journal_bytes sb d 0 8 = Inr jh"
    by (auto simp add: journal_install_def split: sum.splits)
  show ?thesis
  proof (cases "rd32 jh 0 \<noteq> JOURNAL_MAGIC \<or> rd32 jh 4 \<le> 8")
    case True
    with jh have "journal_install sb d = Some (Inr (d, 0))" by (simp add: install_empty)
    with assms show ?thesis by simp
  next
    case False
    with assms jh obtain d' where "d1 = write_journal_bytes sb d' 0 (journal_header_bytes JOURNAL_MAGIC 8)"
      by (auto simp add: journal_install_def split: sum.splits option.splits prod.splits)
    then show ?thesis
      using install_empty [OF read_header_after_reset [of sb d' JOURNAL_MAGIC 8]] by simp
  qed
qed

lemma enc_rec_nonempty: "enc_rec r \<noteq> []"
  by (cases r) (simp_all add: data_record_bytes_def commit_record_bytes_def le16_def)

lemma enc_recs_nonempty: "rs \<noteq> [] \<Longrightarrow> 0 < length (enc_recs rs)"
  by (cases rs) (simp_all add: enc_rec_nonempty)

lemma unat_of_nat_u32: "n < 2 ^ 32 \<Longrightarrow> unat (of_nat n :: u32) = n"
  by (simp add: unat_of_nat)

lemma unat_used_bytes: "8 + length (enc_recs rs) < 2 ^ 32 \<Longrightarrow> unat (used_bytes rs) = 8 + length (enc_recs rs)"
  unfolding used_bytes_def by (rule unat_of_nat_u32)

lemma journal_holds_header:
  assumes "journal_holds sb d rs"
  shows "read_journal_bytes sb d 0 8 = Inr (journal_header_bytes JOURNAL_MAGIC (used_bytes rs))"
proof -
  let ?u = "used_bytes rs"
  from assms have lt: "8 + length (enc_recs rs) < 2 ^ 32"
    and rd: "file_read d (unat (journal_block sb * 4096)) (unat ?u)
              = Inr (journal_header_bytes JOURNAL_MAGIC ?u @ enc_recs rs)"
    by (simp_all add: journal_holds_def read_journal_bytes_def)
  have u: "unat ?u = 8 + length (enc_recs rs)" using lt by (rule unat_used_bytes)
  from file_read_take [OF rd, of 8] u show ?thesis
    by (simp add: read_journal_bytes_def)
qed

lemma install_holds:
  assumes "journal_holds sb d rs" "rs \<noteq> []"
  shows "journal_install sb d =
    Some (Inr (write_journal_bytes sb (fst (replay d [] 0 rs)) 0 (journal_header_bytes JOURNAL_MAGIC 8),
               snd (snd (replay d [] 0 rs))))"
proof -
  let ?u = "used_bytes rs"
  let ?h = "journal_header_bytes JOURNAL_MAGIC ?u"
  from assms(1) have wf: "list_all wf_rec rs" and lt: "8 + length (enc_recs rs) < 2 ^ 32"
    and rd: "read_journal_bytes sb d 0 ?u = Inr (?h @ enc_recs rs)"
    by (simp_all add: journal_holds_def)
  have u: "unat ?u = 8 + length (enc_recs rs)" using lt by (rule unat_used_bytes)
  have hd: "read_journal_bytes sb d 0 8 = Inr ?h" using assms(1) by (rule journal_holds_header)
  have "unat ?u > 8" using u enc_recs_nonempty [OF assms(2)] by simp
  then have nle: "\<not> ?u \<le> 8" by (simp add: word_le_nat_alt)
  have sc: "scan_records (?h @ enc_recs rs) ?u 8 [] 0 d = Some (Inr (replay d [] 0 rs))"
    by (rule scan_records_enc [OF wf, of _ ?h]) (simp_all add: u)
  show ?thesis
    using nle by (simp add: journal_install_def hd rd sc split: prod.splits)
qed

lemma install_holds_empty:
  assumes "journal_holds sb d []"
  shows "journal_install sb d = Some (Inr (d, 0))"
  using journal_holds_header [OF assms] by (simp add: journal_install_def used_bytes_def)

lemma replay_append_data:
  "list_all is_data ds \<Longrightarrow>
   fst (replay d pend n (rs @ ds)) = fst (replay d pend n rs) \<and>
   snd (snd (replay d pend n (rs @ ds))) = snd (snd (replay d pend n rs))"
proof (induction rs arbitrary: d pend n)
  case Nil
  then show ?case
  proof (induction ds arbitrary: pend)
    case Nil
    then show ?case by simp
  next
    case (Cons r ds)
    then show ?case by (cases r) simp_all
  qed
next
  case (Cons r rs)
  then show ?case by (cases r) simp_all
qed

lemma install_holds_clear:
  assumes "journal_holds sb d rs" "rs \<noteq> []"
  shows "journal_install sb d =
    Some (Inr (clear_journal sb (fst (replay d [] 0 rs)), snd (snd (replay d [] 0 rs))))"
  using install_holds [OF assms] by (simp add: clear_journal_def)

lemma read_header_clear_journal:
  "read_journal_bytes sb (clear_journal sb d) 0 8 = Inr (journal_header_bytes JOURNAL_MAGIC 8)"
  unfolding clear_journal_def by (rule read_header_after_reset)

lemma clear_journal_frame:
  assumes "unat (journal_block sb * 4096) + 8 \<le> fsize d"
  shows "fsize (clear_journal sb d) = fsize d"
    and "a < unat (journal_block sb * 4096) \<or> unat (journal_block sb * 4096) + 8 \<le> a
          \<Longrightarrow> contents (clear_journal sb d) a = contents d a"
  using assms by (auto simp add: clear_journal_def write_journal_bytes_def contents_file_write)

lemma journal_holds_fsize:
  assumes "journal_holds sb d rs"
  shows "unat (journal_block sb * 4096) + 8 \<le> fsize d"
  using journal_holds_header [OF assms]
  by (simp add: read_journal_bytes_def file_read_Inr_iff)


lemma file_read_zero_image:
  "n \<noteq> 0 \<Longrightarrow> p + n \<le> 85 * 4096 \<Longrightarrow> file_read zero_image p n = Inr (replicate n 0)"
  by (simp add: file_read_def zero_image_def map_replicate_const)

lemma fsize_image_with_journal:
  "fsize (image_with_journal sb d rs) =
     max (fsize d) (unat (journal_block sb * 4096) + 8 + length (enc_recs rs))"
  by (simp add: image_with_journal_def write_journal_bytes_def)

lemma read_block_image_with_journal:
  assumes "unat (b * 4096) + 4096 \<le> unat (journal_block sb * 4096)
           \<or> unat (journal_block sb * 4096) + 8 + length (enc_recs rs) \<le> unat (b * 4096)"
    "unat (b * 4096) + 4096 \<le> fsize d"
  shows "read_block (image_with_journal sb d rs) b = read_block d b"
  using assms
    file_read_write_other [of "unat (b * 4096)" 4096 "unat (journal_block sb * 4096)"
      "journal_header_bytes JOURNAL_MAGIC (used_bytes rs) @ enc_recs rs" d]
  by (simp add: read_block_def image_with_journal_def write_journal_bytes_def add.assoc)

lemma read_block_clear_journal:
  assumes "unat (b * 4096) + 4096 \<le> unat (journal_block sb * 4096)
           \<or> unat (journal_block sb * 4096) + 8 \<le> unat (b * 4096)"
    "unat (b * 4096) + 4096 \<le> fsize d"
  shows "read_block (clear_journal sb d) b = read_block d b"
  using assms
    file_read_write_other [of "unat (b * 4096)" 4096 "unat (journal_block sb * 4096)"
      "journal_header_bytes JOURNAL_MAGIC 8" d]
  by (simp add: read_block_def clear_journal_def write_journal_bytes_def)

lemma read_block_write_block_same:
  "length buf = 4096 \<Longrightarrow> read_block (write_block d b buf) b = Inr buf"
proof -
  assume len: "length buf = 4096"
  then have "buf \<noteq> []" by auto
  from file_read_write_same [OF this, of d "unat (b * 4096)"] len
  show ?thesis by (simp add: read_block_def write_block_def)
qed

lemma fsize_write_block:
  "fsize (write_block d b buf) = max (fsize d) (unat (b * 4096) + length buf)"
  by (simp add: write_block_def)


lemma replay_count:
  "snd (snd (replay d pend n rs)) = n + length (filter (\<lambda>r. \<not> is_data r) rs)"
proof (induction rs arbitrary: d pend n)
  case Nil
  show ?case by simp
next
  case (Cons r rs)
  then show ?case by (cases r) simp_all
qed




lemma fsize_apply_pending_mono: "fsize d \<le> fsize (apply_pending d ws)"
proof (induction ws arbitrary: d)
  case Nil
  show ?case by simp
next
  case (Cons w ws)
  obtain b x where w: "w = (b, x)" by (cases w)
  have "fsize d \<le> fsize (write_block d b x)" by (simp add: fsize_write_block)
  also have "\<dots> \<le> fsize (apply_pending (write_block d b x) ws)" by (rule Cons.IH)
  finally show ?case by (simp add: w)
qed

lemma read_block_write_block_other:
  assumes "unat (b' * 4096) + length x \<le> unat (b * 4096) \<or> unat (b * 4096) + 4096 \<le> unat (b' * 4096)"
    "unat (b * 4096) + 4096 \<le> fsize d"
  shows "read_block (write_block d b' x) b = read_block d b"
  using assms file_read_write_other [of "unat (b * 4096)" 4096 "unat (b' * 4096)" x d]
  by (auto simp add: read_block_def write_block_def)

lemma read_block_apply_pending_other:
  assumes "list_all (\<lambda>(b', x). unat (b' * 4096) + length x \<le> unat (b * 4096)
                          \<or> unat (b * 4096) + 4096 \<le> unat (b' * 4096)) ws"
    "unat (b * 4096) + 4096 \<le> fsize d"
  shows "read_block (apply_pending d ws) b = read_block d b"
  using assms
proof (induction ws arbitrary: d)
  case Nil
  show ?case by simp
next
  case (Cons w ws)
  obtain b' x where w: "w = (b', x)" by (cases w)
  have fs: "unat (b * 4096) + 4096 \<le> fsize (write_block d b' x)"
    using Cons.prems(2) by (simp add: fsize_write_block)
  have "read_block (apply_pending (write_block d b' x) ws) b = read_block (write_block d b' x) b"
    using Cons.prems(1) fs by (intro Cons.IH) simp_all
  also have "\<dots> = read_block d b"
    using Cons.prems w by (intro read_block_write_block_other) simp_all
  finally show ?case by (simp add: w)
qed





lemma unat_block_pos_le: "unat ((b :: u32) * 4096) \<le> unat b * 4096"
  by (simp add: unat_word_ariths(2))

lemma block_in_range_end:
  fixes b t :: u32
  assumes "b < t"
  shows "unat (b * 4096) + 4096 \<le> unat t * 4096"
proof -
  from assms have "unat b + 1 \<le> unat t" by (simp add: word_less_nat_alt)
  then have "(unat b + 1) * 4096 \<le> unat t * 4096" by (rule mult_le_mono1)
  with unat_block_pos_le [of b] show ?thesis by simp
qed

lemma fsize_apply_pending_in_range:
  assumes "list_all (\<lambda>(b, x). b < t \<and> length x = 4096) pend" "fsize d = unat t * 4096"
  shows "fsize (apply_pending d pend) = fsize d"
  using assms
proof (induction pend arbitrary: d)
  case Nil
  show ?case by simp
next
  case (Cons w ws)
  obtain b x where w: "w = (b, x)" by (cases w)
  from Cons.prems w have b: "b < t" and x: "length x = 4096" by simp_all
  have fs: "fsize (write_block d b x) = fsize d"
    using block_in_range_end [OF b] x Cons.prems(2) by (simp add: fsize_write_block)
  from Cons.IH [of "write_block d b x"] Cons.prems fs show ?case by (simp add: w)
qed

lemma fsize_replay_in_range:
  assumes "list_all wf_rec rs" "list_all (target_in_range sb) rs"
    "list_all (\<lambda>(b, x). b < total_blocks sb \<and> length x = 4096) pend"
    "fsize d = unat (total_blocks sb) * 4096"
  shows "fsize (fst (replay d pend n rs)) = fsize d"
  using assms
proof (induction rs arbitrary: d pend n)
  case Nil
  show ?case by simp
next
  case (Cons r rs)
  show ?case
  proof (cases r)
    case (DataRec b x)
    let ?p = "if length pend < 16 then pend @ [(b, x)] else pend"
    have "fsize (fst (replay d ?p n rs)) = fsize d"
      using Cons.prems DataRec by (intro Cons.IH) simp_all
    then show ?thesis using DataRec by simp
  next
    case CommitRec
    have fs: "fsize (apply_pending d pend) = fsize d"
      using Cons.prems(3,4) by (rule fsize_apply_pending_in_range)
    from Cons.IH [of "[]" "apply_pending d pend" "Suc n"] Cons.prems fs CommitRec
    show ?thesis by simp
  qed
qed

lemma strcmp_eq_cstr:
  "0 \<notin> set s \<Longrightarrow> length s < length mem \<Longrightarrow>
   strcmp_eq mem (s @ [0]) = Some (takeWhile (\<lambda>c. c \<noteq> 0) mem = s)"
proof (induction s arbitrary: mem)
  case Nil
  then obtain a as where "mem = a # as" by (cases mem) auto
  then show ?case by (cases "a = 0") auto
next
  case (Cons c s)
  then obtain a as where mem: "mem = a # as" by (cases mem) auto
  from Cons.prems have c: "c \<noteq> 0" by auto
  show ?case
  proof (cases "a = c")
    case True
    with Cons.IH [of as] Cons.prems mem c show ?thesis by simp
  next
    case False
    with mem c show ?thesis by auto
  qed
qed

lemma takeWhile_take: "takeWhile P (take n xs) = take n (takeWhile P xs)"
proof (induction xs arbitrary: n)
  case Nil
  show ?case by simp
next
  case (Cons x xs)
  then show ?case by (cases n) simp_all
qed

lemma cstr_take_eq:
  assumes "length s < n"
  shows "takeWhile P (take n xs) = s \<longleftrightarrow> takeWhile P xs = s"
proof
  assume "takeWhile P xs = s"
  with assms show "takeWhile P (take n xs) = s" by (simp add: takeWhile_take)
next
  assume a: "takeWhile P (take n xs) = s"
  then have t: "take n (takeWhile P xs) = s" by (simp add: takeWhile_take)
  with assms have "length (takeWhile P xs) < n" by (auto simp add: min_def split: if_splits)
  with t show "takeWhile P xs = s" by simp
qed

lemma strcmp_dirent:
  assumes "length dir_block = 4096" "length filename \<le> 27" "0 \<notin> set filename" "i < 128"
  shows "strcmp_eq (drop (i * 32 + 4) dir_block) (filename @ [0])
           = Some (dirent_name dir_block i = filename)"
proof -
  have "length filename < length (drop (i * 32 + 4) dir_block)" using assms by simp
  from strcmp_eq_cstr [OF assms(3) this] show ?thesis
    using assms(2) by (simp add: dirent_name_def cstr_take_eq)
qed

lemma scan_dirents_result:
  assumes "length dir_block = 4096" "length filename \<le> 27" "0 \<notin> set filename"
    "\<forall>i \<in> set is. i < 128"
  shows "scan_dirents dir_block filename is found =
           (if \<exists>i \<in> set is. dirent_used dir_block i \<and> dirent_name dir_block i = filename
            then Inl AlreadyExists
            else Inr (case found of Some s \<Rightarrow> Some s
                      | None \<Rightarrow> List.find (\<lambda>i. \<not> dirent_used dir_block i) is))"
  using assms(4)
proof (induction "is" arbitrary: found)
  case Nil
  show ?case by (simp split: option.splits)
next
  case (Cons i "is")
  from Cons.prems have i: "i < 128" by simp
  note sc = strcmp_dirent [OF assms(1,2,3) i]
  from Cons.prems have IH: "scan_dirents dir_block filename is f =
           (if \<exists>i \<in> set is. dirent_used dir_block i \<and> dirent_name dir_block i = filename
            then Inl AlreadyExists
            else Inr (case f of Some s \<Rightarrow> Some s
                      | None \<Rightarrow> List.find (\<lambda>i. \<not> dirent_used dir_block i) is))" for f
    by (intro Cons.IH) simp
  show ?case
  proof (cases "dirent_used dir_block i")
    case True
    then have u: "dir_block ! (i * 32 + 4) \<noteq> 0" by (simp add: dirent_used_def)
    show ?thesis
    proof (cases "dirent_name dir_block i = filename")
      case True
      with \<open>dirent_used dir_block i\<close> u sc show ?thesis by simp
    next
      case False
      with \<open>dirent_used dir_block i\<close> u sc IH [of found] show ?thesis
        by (simp split: option.splits)
    qed
  next
    case False
    then have u: "dir_block ! (i * 32 + 4) = 0" by (simp add: dirent_used_def)
    show ?thesis using False u IH by (auto split: option.splits)
  qed
qed

lemma find_upt_least:
  assumes "\<exists>i<n. P i"
  shows "List.find P [0..<n] = Some (LEAST i. P i)"
proof -
  let ?l = "LEAST i. P i"
  from assms obtain i where i: "i < n" "P i" by auto
  then have P: "P ?l" by (metis LeastI)
  have le: "?l \<le> i" using i by (simp add: Least_le)
  have ln: "?l < n" using le i by simp
  have "List.find P [0..<n] = Some ?l"
  proof (rule find_Some_iff [THEN iffD2], intro exI conjI)
    show "?l < length [0..<n]" using ln by simp
    show "P ([0..<n] ! ?l)" using P ln by simp
    show "?l = [0..<n] ! ?l" using ln by simp
    show "\<forall>j<?l. \<not> P ([0..<n] ! j)"
      using ln not_less_Least by (auto simp add: nth_upt)
  qed
  then show ?thesis .
qed

lemma find_upt_none: "\<not> (\<exists>i<n. P i) \<Longrightarrow> List.find P [0..<n] = None"
  by (auto simp add: find_None_iff)

lemma length_dirent_bytes [simp]: "length (dirent_bytes ino name) = 32"
  by (simp add: dirent_bytes_def)

lemma length_example_dir_block [simp]: "length example_dir_block = 4096"
  by (simp add: example_dir_block_def)

lemma example_dir_block_used:
  "dirent_used example_dir_block 0" "dirent_used example_dir_block 1"
  "2 \<le> i \<Longrightarrow> i < 128 \<Longrightarrow> \<not> dirent_used example_dir_block i"
proof -
  show "dirent_used example_dir_block 0"
    by (simp add: dirent_used_def example_dir_block_def dirent_bytes_def le32_def)
  show "dirent_used example_dir_block 1"
    by (simp add: dirent_used_def example_dir_block_def dirent_bytes_def le32_def nth_append)
  show "\<not> dirent_used example_dir_block i" if "2 \<le> i" "i < 128"
  proof -
    let ?pre = "dirent_bytes 0 [0x2E] @ dirent_bytes 0 [0x2E, 0x2E]"
    have e: "example_dir_block = ?pre @ replicate 4032 0"
      by (simp add: example_dir_block_def)
    have l: "length ?pre = 64" by simp
    have ge: "\<not> i * 32 + 4 < 64" using that by simp
    have "example_dir_block ! (i * 32 + 4)
        = (replicate 4032 0 :: byte list) ! (i * 32 + 4 - 64)"
      unfolding e using ge l by (simp only: nth_append if_False)
    also have "\<dots> = 0" using that by simp
    finally show ?thesis by (simp add: dirent_used_def)
  qed
qed

lemma example_dir_block_names:
  "dirent_name example_dir_block 0 = [0x2E]" "dirent_name example_dir_block 1 = [0x2E, 0x2E]"
  by (simp_all add: dirent_name_def example_dir_block_def dirent_bytes_def le32_def)

lemma example_dir_block_least: "(LEAST i. \<not> dirent_used example_dir_block i) = 2"
proof (rule Least_equality)
  show "\<not> dirent_used example_dir_block 2" by (simp add: example_dir_block_used)
  fix y assume "\<not> dirent_used example_dir_block y"
  then have "y \<noteq> 0 \<and> y \<noteq> 1" using example_dir_block_used(1,2) by metis
  then show "2 \<le> y" by arith
qed

lemma example_dir_block_no_match:
  assumes "name \<noteq> [0x2E]" "name \<noteq> [0x2E, 0x2E]"
  shows "\<not> (\<exists>i<128. dirent_used example_dir_block i \<and> dirent_name example_dir_block i = name)"
proof
  assume "\<exists>i<128. dirent_used example_dir_block i \<and> dirent_name example_dir_block i = name"
  then obtain i where i: "i < 128" "dirent_used example_dir_block i"
    "dirent_name example_dir_block i = name" by auto
  from i(1,2) example_dir_block_used(3) [of i] have "\<not> 2 \<le> i" by blast
  then have "i = 0 \<or> i = 1" by arith
  with i(3) assms example_dir_block_names show False by auto
qed

lemma journal_holds_image_with_journal:
  assumes "list_all wf_rec rs" "8 + length (enc_recs rs) < 2 ^ 32"
  shows "journal_holds sb (image_with_journal sb d rs) rs"
proof -
  let ?buf = "journal_header_bytes JOURNAL_MAGIC (used_bytes rs) @ enc_recs rs"
  have ne: "?buf \<noteq> []" by (simp add: journal_header_bytes_def le32_def)
  have len: "length ?buf = unat (used_bytes rs)" using assms(2) by (simp add: unat_used_bytes)
  from file_read_write_same [OF ne, of d "unat (journal_block sb * 4096)"] len
  show ?thesis
    using assms by (simp add: journal_holds_def image_with_journal_def read_journal_bytes_def
        write_journal_bytes_def)
qed

lemma unat_block_pos:
  fixes b :: u32
  assumes "unat b * 4096 < 2 ^ 32"
  shows "unat (b * 4096) = unat b * 4096"
  using assms by (simp add: unat_word_ariths(2))

lemma journal_pos:
  fixes off :: u32
  assumes "unat (journal_block sb) * 4096 + unat off < 2 ^ 32"
  shows "unat (journal_block sb * 4096 + off) = unat (journal_block sb) * 4096 + unat off"
proof -
  have 1: "unat (journal_block sb * 4096) = unat (journal_block sb) * 4096"
    using assms by (intro unat_block_pos) simp
  have "unat (journal_block sb * 4096) + unat off < 2 ^ LENGTH(32)" using assms 1 by simp
  then show ?thesis using 1 by (simp add: unat_add_lem [THEN iffD1])
qed

lemma journal_pos_of_nat:
  assumes "unat (journal_block sb) * 4096 + k < 2 ^ 32"
  shows "unat (journal_block sb * 4096 + of_nat k) = unat (journal_block sb) * 4096 + k"
proof -
  from assms have "k < 2 ^ 32" by simp
  then have "unat (of_nat k :: u32) = k" by (rule unat_of_nat_u32)
  with journal_pos [of sb "of_nat k"] assms show ?thesis by simp
qed

lemma file_read_append_write:
  assumes "file_read d p n = Inr xs" "ys \<noteq> []"
  shows "file_read (file_write d (p + n) ys) p (n + length ys) = Inr (xs @ ys)"
proof -
  from assms(1) have n: "n \<noteq> 0" "p + n \<le> fsize d" and xs: "xs = map (contents d) [p..<p + n]"
    by (simp_all add: file_read_Inr_iff)
  have "map (contents (file_write d (p + n) ys)) [p..<p + (n + length ys)] = xs @ ys"
  proof (rule nth_equalityI)
    show "length (map (contents (file_write d (p + n) ys)) [p..<p + (n + length ys)]) = length (xs @ ys)"
      using xs by simp
  next
    fix i assume "i < length (map (contents (file_write d (p + n) ys)) [p..<p + (n + length ys)])"
    then have i: "i < n + length ys" by simp
    show "map (contents (file_write d (p + n) ys)) [p..<p + (n + length ys)] ! i = (xs @ ys) ! i"
      using i n xs by (auto simp add: contents_file_write nth_append)
  qed
  then show ?thesis using n by (simp add: file_read_Inr_iff)
qed

lemma file_read_overwrite_prefix:
  assumes "file_read d p n = Inr (h @ xs)" "length h' = length h" "h' \<noteq> []"
  shows "file_read (file_write d p h') p n = Inr (h' @ xs)"
proof -
  from assms(1) have n: "n \<noteq> 0" "p + n \<le> fsize d" and xs: "h @ xs = map (contents d) [p..<p + n]"
    by (simp_all add: file_read_Inr_iff)
  from xs have len: "length h + length xs = n" by (metis length_append length_map length_upt add_diff_cancel_left')
  have "map (contents (file_write d p h')) [p..<p + n] = h' @ xs"
  proof (rule nth_equalityI)
    show "length (map (contents (file_write d p h')) [p..<p + n]) = length (h' @ xs)"
      using len assms(2) by simp
  next
    fix i assume "i < length (map (contents (file_write d p h')) [p..<p + n])"
    then have i: "i < n" by simp
    have "(h @ xs) ! i = contents d (p + i)" using xs i by simp
    then show "map (contents (file_write d p h')) [p..<p + n] ! i = (h' @ xs) ! i"
      using i n assms(2) by (auto simp add: contents_file_write nth_append)
  qed
  then show ?thesis using n assms(2) len by (simp add: file_read_Inr_iff)
qed

lemma append_record:
  assumes "journal_fits sb d" "file_read d (unat (journal_block sb) * 4096) (unat off) = Inr Y"
    "unat off + length r \<le> 65536" "r \<noteq> []"
  shows "file_read (write_journal_bytes sb d off r) (unat (journal_block sb) * 4096)
           (unat off + length r) = Inr (Y @ r)"
proof -
  from assms(4) have r: "0 < length r" by simp
  have "unat (journal_block sb) * 4096 + 65536 \<le> 4294967296"
    using assms(1) by (simp add: journal_fits_def)
  with assms(3) r have "unat (journal_block sb) * 4096 + unat off < 4294967296"
    by linarith
  then have "unat (journal_block sb) * 4096 + unat off < 2 ^ 32" by simp
  then have "unat (journal_block sb * 4096 + off) = unat (journal_block sb) * 4096 + unat off"
    by (rule journal_pos)
  with file_read_append_write [OF assms(2,4)] show ?thesis
    by (simp add: write_journal_bytes_def)
qed

lemma journal_fits_write [simp]:
  "journal_fits sb d \<Longrightarrow> journal_fits sb (write_journal_bytes sb d off r)"
  by (auto simp add: journal_fits_def write_journal_bytes_def)

lemma unat_plus_numeral:
  fixes off :: u32
  assumes "unat off + k \<le> 65536"
  shows "unat (off + of_nat k) = unat off + k"
  using unat_off_plus [of off k "65536 :: u32"] assms by simp

lemma length_transaction_records:
  assumes "length bm = 4096" "length b0 = 4096" "length b1 = 4096" "length dir = 4096"
  shows "length (enc_recs (transaction_records sb in1 root bm b0 b1 dir))
           = (if in1 then 16420 else 12316)"
  using assms by (simp add: transaction_records_def)

lemma write_transaction_journal:
  assumes fits: "journal_fits sb d"
    and rd: "file_read d (unat (journal_block sb) * 4096) (unat used) = Inr (h @ X)"
    and h: "length h = 8"
    and cap: "unat used + 16420 \<le> 65536"
    and lens: "length bm = 4096" "length b0 = 4096" "length b1 = 4096" "length dir = 4096"
  shows "file_read (write_transaction sb d used in1 root bm b0 b1 dir)
           (unat (journal_block sb) * 4096)
           (unat used + length (enc_recs (transaction_records sb in1 root bm b0 b1 dir)))
         = Inr (journal_header_bytes JOURNAL_MAGIC
                  (used + of_nat (length (enc_recs (transaction_records sb in1 root bm b0 b1 dir))))
                @ X @ enc_recs (transaction_records sb in1 root bm b0 b1 dir))"
proof -
  let ?jp = "unat (journal_block sb) * 4096"
  let ?r1 = "data_record_bytes (inode_bitmap sb) bm"
  let ?r2 = "data_record_bytes (inode_start sb) b0"
  let ?r3 = "data_record_bytes (inode_start sb + 1) b1"
  let ?r4 = "data_record_bytes root dir"
  let ?c = "commit_record_bytes"
  define d1 where "d1 = write_journal_bytes sb d used ?r1"
  define d2 where "d2 = write_journal_bytes sb d1 (used + 4104) ?r2"
  have ne: "?r1 \<noteq> []" "?r2 \<noteq> []" "?r3 \<noteq> []" "?r4 \<noteq> []" "?c \<noteq> []"
    by (simp_all add: data_record_bytes_def commit_record_bytes_def le16_def)
  have l: "length ?r1 = 4104" "length ?r2 = 4104" "length ?r3 = 4104" "length ?r4 = 4104"
    using lens by simp_all
  have u1: "unat (used + 4104) = unat used + 4104"
    using unat_plus_numeral [of used 4104] cap by simp
  have u2: "unat (used + 4104 + 4104) = unat used + 8208"
    using unat_plus_numeral [of "used + 4104" 4104] cap u1 by simp
  have u3: "unat (used + 4104 + 4104 + 4104) = unat used + 12312"
    using unat_plus_numeral [of "used + 4104 + 4104" 4104] cap u2 by simp
  have u4: "unat (used + 4104 + 4104 + 4104 + 4104) = unat used + 16416"
    using unat_plus_numeral [of "used + 4104 + 4104 + 4104" 4104] cap u3 by simp
  have f1: "journal_fits sb d1" using fits by (simp add: d1_def)
  have f2: "journal_fits sb d2" using f1 by (simp add: d2_def)
  have s1: "file_read d1 ?jp (unat used + 4104) = Inr ((h @ X) @ ?r1)"
    unfolding d1_def using append_record [OF fits rd _ ne(1)] l cap by simp
  have s2: "file_read d2 ?jp (unat used + 8208) = Inr (((h @ X) @ ?r1) @ ?r2)"
    unfolding d2_def using append_record [OF f1 _ _ ne(2), of "used + 4104"] s1 l cap u1 by (simp add: add.commute)
  show ?thesis
  proof (cases in1)
    case True
    define d3 where "d3 = write_journal_bytes sb d2 (used + 4104 + 4104) ?r3"
    define d4 where "d4 = write_journal_bytes sb d3 (used + 4104 + 4104 + 4104) ?r4"
    define d5 where "d5 = write_journal_bytes sb d4 (used + 4104 + 4104 + 4104 + 4104) ?c"
    have f3: "journal_fits sb d3" using f2 by (simp add: d3_def)
    have f4: "journal_fits sb d4" using f3 by (simp add: d4_def)
    have s3: "file_read d3 ?jp (unat used + 12312) = Inr ((((h @ X) @ ?r1) @ ?r2) @ ?r3)"
      unfolding d3_def using append_record [OF f2 _ _ ne(3), of "used + 4104 + 4104"] s2 l cap u2
      by (simp add: add.commute)
    have s4: "file_read d4 ?jp (unat used + 16416) = Inr (((((h @ X) @ ?r1) @ ?r2) @ ?r3) @ ?r4)"
      unfolding d4_def
      using append_record [OF f3 _ _ ne(4), of "used + 4104 + 4104 + 4104"] s3 l cap u3
      by (simp add: add.commute)
    have s5: "file_read d5 ?jp (unat used + 16420)
        = Inr (h @ (X @ ?r1 @ ?r2 @ ?r3 @ ?r4 @ ?c))"
      unfolding d5_def
      using append_record [OF f4 _ _ ne(5), of "used + 4104 + 4104 + 4104 + 4104"] s4 l cap u4
      by (simp add: add.commute)
    have pos0: "unat (journal_block sb * 4096 + 0) = ?jp"
      using journal_pos [of sb 0] fits by (simp add: journal_fits_def)
    let ?o5 = "used + 4104 + 4104 + 4104 + 4104 + 4"
    have fin: "file_read (write_journal_bytes sb d5 0 (journal_header_bytes JOURNAL_MAGIC ?o5))
          ?jp (unat used + 16420)
        = Inr (journal_header_bytes JOURNAL_MAGIC ?o5 @ (X @ ?r1 @ ?r2 @ ?r3 @ ?r4 @ ?c))"
      unfolding write_journal_bytes_def [of sb d5 0] pos0
      by (rule file_read_overwrite_prefix [OF s5]) (simp_all add: h journal_header_bytes_def le32_def)
    have wt: "write_transaction sb d used in1 root bm b0 b1 dir
        = write_journal_bytes sb d5 0 (journal_header_bytes JOURNAL_MAGIC ?o5)"
      using True by (simp only: write_transaction_def d1_def d2_def d3_def d4_def d5_def Let_def if_True)
    have o5: "?o5 = used + 16420" by simp
    show ?thesis
      using fin True lens unfolding wt o5 by (simp add: transaction_records_def)
  next
    case False
    define d4 where "d4 = write_journal_bytes sb d2 (used + 4104 + 4104) ?r4"
    define d5 where "d5 = write_journal_bytes sb d4 (used + 4104 + 4104 + 4104) ?c"
    have f4: "journal_fits sb d4" using f2 by (simp add: d4_def)
    have s4: "file_read d4 ?jp (unat used + 12312) = Inr ((((h @ X) @ ?r1) @ ?r2) @ ?r4)"
      unfolding d4_def using append_record [OF f2 _ _ ne(4), of "used + 4104 + 4104"] s2 l cap u2
      by (simp add: add.commute)
    have s5: "file_read d5 ?jp (unat used + 12316)
        = Inr (h @ (X @ ?r1 @ ?r2 @ ?r4 @ ?c))"
      unfolding d5_def
      using append_record [OF f4 _ _ ne(5), of "used + 4104 + 4104 + 4104"] s4 l cap u3
      by (simp add: add.commute)
    have pos0: "unat (journal_block sb * 4096 + 0) = ?jp"
      using journal_pos [of sb 0] fits by (simp add: journal_fits_def)
    let ?o5 = "used + 4104 + 4104 + 4104 + 4"
    have fin: "file_read (write_journal_bytes sb d5 0 (journal_header_bytes JOURNAL_MAGIC ?o5))
          ?jp (unat used + 12316)
        = Inr (journal_header_bytes JOURNAL_MAGIC ?o5 @ (X @ ?r1 @ ?r2 @ ?r4 @ ?c))"
      unfolding write_journal_bytes_def [of sb d5 0] pos0
      by (rule file_read_overwrite_prefix [OF s5]) (simp_all add: h journal_header_bytes_def le32_def)
    have wt: "write_transaction sb d used in1 root bm b0 b1 dir
        = write_journal_bytes sb d5 0 (journal_header_bytes JOURNAL_MAGIC ?o5)"
      using False by (simp only: write_transaction_def d1_def d2_def d4_def d5_def Let_def if_False)
    have o5: "?o5 = used + 12316" by simp
    show ?thesis
      using fin False lens unfolding wt o5 by (simp add: transaction_records_def)
  qed
qed

lemma same_outside_journal_refl [simp]: "same_outside_journal sb d d"
  by (simp add: same_outside_journal_def)

lemma same_outside_journal_trans:
  "same_outside_journal sb d d' \<Longrightarrow> same_outside_journal sb d' d'' \<Longrightarrow> same_outside_journal sb d d''"
  by (simp add: same_outside_journal_def)

lemma write_journal_frame:
  assumes "journal_fits sb d" "unat off + length r \<le> 65536" "r \<noteq> []"
  shows "same_outside_journal sb d (write_journal_bytes sb d off r)"
proof -
  from assms(3) have r: "0 < length r" by simp
  have a: "unat (journal_block sb) * 4096 + 65536 \<le> 4294967296"
    "unat (journal_block sb) * 4096 + 65536 \<le> fsize d"
    using assms(1) by (simp_all add: journal_fits_def)
  with assms(2) r have "unat (journal_block sb) * 4096 + unat off < 4294967296" by linarith
  then have "unat (journal_block sb) * 4096 + unat off < 2 ^ 32" by simp
  then have p: "unat (journal_block sb * 4096 + off) = unat (journal_block sb) * 4096 + unat off"
    by (rule journal_pos)
  show ?thesis
    using a assms(2) unfolding same_outside_journal_def write_journal_bytes_def p
    by (auto simp add: contents_file_write)
qed

lemma write_transaction_frame:
  assumes fits: "journal_fits sb d"
    and cap: "unat used + 16420 \<le> 65536"
    and lens: "length bm = 4096" "length b0 = 4096" "length b1 = 4096" "length dir = 4096"
  shows "same_outside_journal sb d (write_transaction sb d used in1 root bm b0 b1 dir)"
proof -
  let ?r1 = "data_record_bytes (inode_bitmap sb) bm"
  let ?r2 = "data_record_bytes (inode_start sb) b0"
  let ?r3 = "data_record_bytes (inode_start sb + 1) b1"
  let ?r4 = "data_record_bytes root dir"
  let ?c = "commit_record_bytes"
  define d1 where "d1 = write_journal_bytes sb d used ?r1"
  define d2 where "d2 = write_journal_bytes sb d1 (used + 4104) ?r2"
  define d3 where "d3 = (if in1 then write_journal_bytes sb d2 (used + 4104 + 4104) ?r3 else d2)"
  define o3 where "o3 = (if in1 then used + 4104 + 4104 + 4104 else used + 4104 + 4104)"
  define d4 where "d4 = write_journal_bytes sb d3 o3 ?r4"
  define d5 where "d5 = write_journal_bytes sb d4 (o3 + 4104) ?c"
  define d6 where "d6 = write_journal_bytes sb d5 0 (journal_header_bytes JOURNAL_MAGIC (o3 + 4104 + 4))"
  have u1: "unat (used + 4104) = unat used + 4104"
    using unat_plus_numeral [of used 4104] cap by simp
  have u2: "unat (used + 4104 + 4104) = unat used + 8208"
    using unat_plus_numeral [of "used + 4104" 4104] cap u1 by simp
  have u3: "unat (used + 4104 + 4104 + 4104) = unat used + 12312"
    using unat_plus_numeral [of "used + 4104 + 4104" 4104] cap u2 by simp
  have uo3: "unat o3 \<le> unat used + 12312"
  proof (cases in1)
    case True
    then have "o3 = used + 4104 + 4104 + 4104" by (simp only: o3_def if_True)
    then have "unat o3 = unat used + 12312" by (simp only: u3)
    then show ?thesis by simp
  next
    case False
    then have "o3 = used + 4104 + 4104" by (simp only: o3_def if_False)
    then have "unat o3 = unat used + 8208" by (simp only: u2)
    then show ?thesis by simp
  qed
  have uo4: "unat (o3 + 4104) = unat o3 + 4104"
    using unat_plus_numeral [of o3 4104] cap uo3 by simp
  have f1: "journal_fits sb d1" using fits by (simp add: d1_def)
  have f2: "journal_fits sb d2" using f1 by (simp add: d2_def)
  have f3: "journal_fits sb d3" using f2 by (simp add: d3_def)
  have f4: "journal_fits sb d4" using f3 by (simp add: d4_def)
  have f5: "journal_fits sb d5" using f4 by (simp add: d5_def)
  have s1: "same_outside_journal sb d d1"
    unfolding d1_def using fits cap lens by (intro write_journal_frame) (simp_all add: data_record_bytes_def le16_def)
  have s2: "same_outside_journal sb d1 d2"
    unfolding d2_def using f1 cap lens u1 by (intro write_journal_frame) (simp_all add: data_record_bytes_def le16_def)
  have s3: "same_outside_journal sb d2 d3"
    unfolding d3_def using f2 cap lens u2 by (auto intro!: write_journal_frame simp add: data_record_bytes_def le16_def)
  have s4: "same_outside_journal sb d3 d4"
    unfolding d4_def using f3 cap lens uo3 by (intro write_journal_frame) (simp_all add: data_record_bytes_def le16_def)
  have s5: "same_outside_journal sb d4 d5"
    unfolding d5_def using f4 cap lens uo3 uo4 by (intro write_journal_frame) (simp_all add: commit_record_bytes_def le16_def)
  have s6: "same_outside_journal sb d5 d6"
    unfolding d6_def using f5 by (intro write_journal_frame) (simp_all add: journal_header_bytes_def le32_def)
  have wt: "write_transaction sb d used in1 root bm b0 b1 dir = d6"
    by (simp only: write_transaction_def d1_def d2_def d3_def d4_def d5_def d6_def o3_def Let_def)
  show ?thesis
    unfolding wt
    using s1 s2 s3 s4 s5 s6 by (blast intro: same_outside_journal_trans)
qed

lemma find_free_inode_Some:
  assumes "find_free_inode bm = Some k"
  shows "1 \<le> k" "k < 64" "bit_clear bm k"
  using assms by (auto simp add: find_free_inode_def find_Some_iff)

lemma scan_dirents_bound:
  "scan_dirents dir fn is found = Inr (Some s) \<Longrightarrow> found = Some s \<or> s \<in> set is"
proof (induction "is" arbitrary: found)
  case Nil
  then show ?case by simp
next
  case (Cons i "is")
  then show ?case
    by (auto split: if_splits option.splits bool.splits)
qed

lemma find_free_dirent_bound:
  assumes "find_free_dirent dir fn = Inr s"
  shows "s < 128"
proof -
  from assms have "scan_dirents dir fn [0..<128] None = Inr (Some s)"
    by (auto simp add: find_free_dirent_def split: sum.splits option.splits)
  from scan_dirents_bound [OF this] show ?thesis by simp
qed

lemma concat_direct_zero: "concat (replicate 8 (le32 0)) = replicate 32 0"
  by (simp add: le32_def numeral_eq_Suc)

lemma length_new_inode_bytes [simp]: "length (new_inode_bytes t) = 48"
  by (simp add: new_inode_bytes_def concat_direct_zero)

lemma length_init_inode: "length blk = 4096 \<Longrightarrow> idx < 32 \<Longrightarrow> length (init_inode blk idx t) = 4096"
  by (simp add: init_inode_def)

lemma length_put_dirent: "length dir = 4096 \<Longrightarrow> slot < 128 \<Longrightarrow> length (put_dirent dir slot k fn) = 4096"
  by (simp add: put_dirent_def)

lemma prepare_blocks_lengths:
  assumes "prepare_blocks t bm b0 b1 dir k slot fn = (bm', b0', b1', dir')"
    "length bm = 4096" "length b0 = 4096" "length b1 = 4096" "length dir = 4096"
    "k < 64" "slot < 128"
  shows "length bm' = 4096" "length b0' = 4096" "length b1' = 4096" "length dir' = 4096"
  using assms
  by (auto simp add: prepare_blocks_def Let_def length_init_inode length_put_dirent
      split: option.splits if_splits)

lemma journal_create_InrE:
  assumes "journal_create sb t d fn = Inr (d', k)"
  obtains jh bm b0 b1 dir slot bm' b0' b1' dir' where
    "length fn \<le> 27"
    "read_journal_bytes sb d 0 8 = Inr jh"
    "\<not> (if rd32 jh 0 \<noteq> JOURNAL_MAGIC then 8 else rd32 jh 4) + 16420 > 65536"
    "read_block d (inode_bitmap sb) = Inr bm" "find_free_inode bm = Some k"
    "read_block d (inode_start sb) = Inr b0" "read_block d (inode_start sb + 1) = Inr b1"
    "read_block d (rd32 b0 8) = Inr dir" "find_free_dirent dir fn = Inr slot"
    "prepare_blocks t bm b0 b1 dir k slot fn = (bm', b0', b1', dir')"
    "d' = write_transaction sb d (if rd32 jh 0 \<noteq> JOURNAL_MAGIC then 8 else rd32 jh 4)
            (32 \<le> k) (rd32 b0 8) bm' b0' b1' dir'"
  using assms
  by (auto simp add: journal_create_def Let_def split: if_splits sum.splits option.splits prod.splits)

lemma read_block_length: "read_block d b = Inr blk \<Longrightarrow> length blk = 4096"
  by (auto simp add: read_block_def dest: file_read_length)

lemma journal_pos0:
  assumes "journal_fits sb d"
  shows "unat (journal_block sb * 4096) = unat (journal_block sb) * 4096"
proof -
  have "unat (journal_block sb) * 4096 + 65536 \<le> 4294967296"
    using assms by (simp add: journal_fits_def)
  then have "unat (journal_block sb) * 4096 + unat (0 :: u32) < 2 ^ 32" by simp
  from journal_pos [OF this] show ?thesis by simp
qed

text \<open>What the journal holds, as \<open>journal_create\<close> reads it.\<close>

lemma journal_log_read:
  assumes fits: "journal_fits sb d" and log: "journal_log sb d rs"
    and cap: "8 + length (enc_recs rs) \<le> 65536"
    and jh: "read_journal_bytes sb d 0 8 = Inr jh"
  defines "used \<equiv> (if rd32 jh 0 \<noteq> JOURNAL_MAGIC then 8 else rd32 jh 4)"
  shows "unat used = 8 + length (enc_recs rs)"
    and "\<exists>h. length h = 8 \<and>
           file_read d (unat (journal_block sb) * 4096) (unat used) = Inr (h @ enc_recs rs)"
    and "list_all wf_rec rs"
proof -
  note p0 = journal_pos0 [OF fits]
  from log have "unat used = 8 + length (enc_recs rs)
      \<and> (\<exists>h. length h = 8 \<and>
           file_read d (unat (journal_block sb) * 4096) (unat used) = Inr (h @ enc_recs rs))
      \<and> list_all wf_rec rs"
    unfolding journal_log_def
  proof (elim disjE conjE exE)
    fix jh' assume a: "rs = []" "read_journal_bytes sb d 0 8 = Inr jh'" "rd32 jh' 0 \<noteq> JOURNAL_MAGIC"
    with jh have e: "jh' = jh" by simp
    with a have u: "used = 8" by (simp add: used_def)
    have "length jh = 8" using jh by (auto simp add: read_journal_bytes_def dest: file_read_length)
    moreover have "file_read d (unat (journal_block sb) * 4096) 8 = Inr jh"
      using jh by (simp add: read_journal_bytes_def p0)
    ultimately show ?thesis using a(1) u by simp
  next
    assume h: "journal_holds sb d rs"
    from journal_holds_header [OF h] jh
    have e: "jh = journal_header_bytes JOURNAL_MAGIC (used_bytes rs)" by simp
    then have u: "used = used_bytes rs" by (simp add: used_def)
    from h have lt: "8 + length (enc_recs rs) < 2 ^ 32" and wf: "list_all wf_rec rs"
      and rd: "read_journal_bytes sb d 0 (used_bytes rs)
                = Inr (journal_header_bytes JOURNAL_MAGIC (used_bytes rs) @ enc_recs rs)"
      by (simp_all add: journal_holds_def)
    have un: "unat used = 8 + length (enc_recs rs)" using lt u by (simp add: unat_used_bytes)
    have "file_read d (unat (journal_block sb) * 4096) (unat used)
        = Inr (journal_header_bytes JOURNAL_MAGIC (used_bytes rs) @ enc_recs rs)"
      using rd u by (simp add: read_journal_bytes_def p0)
    then show ?thesis using un wf by (intro conjI exI [of _ "journal_header_bytes JOURNAL_MAGIC (used_bytes rs)"]) simp_all
  qed
  then show "unat used = 8 + length (enc_recs rs)"
    and "\<exists>h. length h = 8 \<and>
           file_read d (unat (journal_block sb) * 4096) (unat used) = Inr (h @ enc_recs rs)"
    and "list_all wf_rec rs" by blast+
qed

lemma capacity_check:
  fixes used :: u32
  assumes "unat used \<le> 65536" "\<not> used + 16420 > 65536"
  shows "unat used + 16420 \<le> 65536"
proof -
  have "unat used + unat (16420 :: u32) < 2 ^ LENGTH(32)" using assms(1) by simp
  then have "unat (used + 16420) = unat used + 16420"
    by (simp add: unat_add_lem [THEN iffD1])
  moreover from assms(2) have "unat (used + 16420) \<le> 65536"
    by (simp add: word_less_nat_alt not_less)
  ultimately show ?thesis by simp
qed

lemma journal_create_effect:
  assumes fits: "journal_fits sb d"
    and log: "journal_log sb d rs"
    and cap: "8 + length (enc_recs rs) \<le> 65536"
    and ok: "journal_create sb t d fn = Inr (d', k)"
  shows "\<exists>bm b0 b1 dir slot bm' b0' b1' dir'.
      read_block d (inode_bitmap sb) = Inr bm \<and> find_free_inode bm = Some k \<and>
      read_block d (inode_start sb) = Inr b0 \<and> read_block d (inode_start sb + 1) = Inr b1 \<and>
      read_block d (rd32 b0 8) = Inr dir \<and> find_free_dirent dir fn = Inr slot \<and>
      prepare_blocks t bm b0 b1 dir k slot fn = (bm', b0', b1', dir') \<and>
      journal_holds sb d' (rs @ transaction_records sb (32 \<le> k) (rd32 b0 8) bm' b0' b1' dir') \<and>
      8 + length (enc_recs (rs @ transaction_records sb (32 \<le> k) (rd32 b0 8) bm' b0' b1' dir'))
        \<le> 65536 \<and>
      same_outside_journal sb d d'"
proof -
  from ok obtain jh bm b0 b1 dir slot bm' b0' b1' dir' where
    fn: "length fn \<le> 27" and
    jh: "read_journal_bytes sb d 0 8 = Inr jh" and
    chk: "\<not> (if rd32 jh 0 \<noteq> JOURNAL_MAGIC then 8 else rd32 jh 4) + 16420 > 65536" and
    rb: "read_block d (inode_bitmap sb) = Inr bm" "find_free_inode bm = Some k"
    "read_block d (inode_start sb) = Inr b0" "read_block d (inode_start sb + 1) = Inr b1"
    "read_block d (rd32 b0 8) = Inr dir" "find_free_dirent dir fn = Inr slot" and
    pb: "prepare_blocks t bm b0 b1 dir k slot fn = (bm', b0', b1', dir')" and
    d': "d' = write_transaction sb d (if rd32 jh 0 \<noteq> JOURNAL_MAGIC then 8 else rd32 jh 4)
            (32 \<le> k) (rd32 b0 8) bm' b0' b1' dir'"
    by (rule journal_create_InrE)
  define used where "used = (if rd32 jh 0 \<noteq> JOURNAL_MAGIC then 8 else rd32 jh 4)"
  let ?txn = "transaction_records sb (32 \<le> k) (rd32 b0 8) bm' b0' b1' dir'"
  let ?jp = "unat (journal_block sb) * 4096"
  from journal_log_read [OF fits log cap jh]
  obtain h where un: "unat used = 8 + length (enc_recs rs)" and h: "length h = 8"
    and rd: "file_read d ?jp (unat used) = Inr (h @ enc_recs rs)" and wf: "list_all wf_rec rs"
    unfolding used_def by blast
  have cap': "unat used + 16420 \<le> 65536"
    using capacity_check [of used] un cap chk by (simp add: used_def)
  have lens0: "length bm = 4096" "length b0 = 4096" "length b1 = 4096" "length dir = 4096"
    using rb by (auto dest: read_block_length)
  have k: "k < 64" using find_free_inode_Some(2) [OF rb(2)] .
  have slot: "slot < 128" using find_free_dirent_bound [OF rb(6)] .
  note lens = prepare_blocks_lengths [OF pb lens0 k slot]
  have n: "length (enc_recs ?txn) = (if 32 \<le> k then 16420 else 12316)"
    using lens by (rule length_transaction_records)
  have fr: "same_outside_journal sb d d'"
    unfolding d' used_def [symmetric] using fits cap' lens by (rule write_transaction_frame)
  have jr: "file_read d' ?jp (unat used + length (enc_recs ?txn))
      = Inr (journal_header_bytes JOURNAL_MAGIC (used + of_nat (length (enc_recs ?txn)))
              @ enc_recs rs @ enc_recs ?txn)"
    unfolding d' used_def [symmetric] using fits rd h cap' lens by (rule write_transaction_journal)
  have tot: "8 + length (enc_recs (rs @ ?txn)) \<le> 65536"
    using un cap' n by (simp split: if_splits)
  have ub: "used_bytes (rs @ ?txn) = used + of_nat (length (enc_recs ?txn))"
  proof -
    have "used = of_nat (unat used)" by simp
    also have "\<dots> = of_nat (8 + length (enc_recs rs))" using un by simp
    finally show ?thesis by (simp add: used_bytes_def)
  qed
  have uu: "unat (used_bytes (rs @ ?txn)) = unat used + length (enc_recs ?txn)"
    using unat_used_bytes [of "rs @ ?txn"] tot un by simp
  have wft: "list_all wf_rec ?txn" using lens by (simp add: transaction_records_def)
  have fits': "journal_fits sb d'" using fits fr by (simp add: journal_fits_def same_outside_journal_def)
  have r': "read_journal_bytes sb d' 0 (used_bytes (rs @ ?txn))
      = file_read d' ?jp (unat used + length (enc_recs ?txn))"
    by (simp add: read_journal_bytes_def journal_pos0 [OF fits'] uu)
  have jh': "journal_holds sb d' (rs @ ?txn)"
    unfolding journal_holds_def r' jr using wf wft tot ub by simp
  show ?thesis
    using rb pb jh' tot fr by blast
qed

lemma journal_create_success:
  assumes "length fn \<le> 27" "read_journal_bytes sb d 0 8 = Inr jh"
    "\<not> (if rd32 jh 0 \<noteq> JOURNAL_MAGIC then 8 else rd32 jh 4) + 16420 > 65536"
    "read_block d (inode_bitmap sb) = Inr bm" "find_free_inode bm = Some k"
    "read_block d (inode_start sb) = Inr b0" "read_block d (inode_start sb + 1) = Inr b1"
    "read_block d (rd32 b0 8) = Inr dir" "find_free_dirent dir fn = Inr slot"
    "prepare_blocks t bm b0 b1 dir k slot fn = (bm', b0', b1', dir')"
  shows "journal_create sb t d fn =
           Inr (write_transaction sb d (if rd32 jh 0 \<noteq> JOURNAL_MAGIC then 8 else rd32 jh 4)
                  (32 \<le> k) (rd32 b0 8) bm' b0' b1' dir', k)"
  using assms by (simp add: journal_create_def Let_def)

lemma same_outside_read_block:
  assumes "same_outside_journal sb d d'"
    "unat b < unat (journal_block sb) \<or> unat (journal_block sb) + 16 \<le> unat b"
    "unat b < 2 ^ 20"
  shows "read_block d' b = read_block d b"
proof -
  have p: "unat (b * 4096) = unat b * 4096"
    using assms(3) by (intro unat_block_pos) simp
  have "contents d' a = contents d a" if "unat b * 4096 \<le> a" "a < unat b * 4096 + 4096" for a
  proof -
    from assms(2) that have "a < unat (journal_block sb) * 4096
        \<or> unat (journal_block sb) * 4096 + 16 * 4096 \<le> a" by auto
    with assms(1) show ?thesis unfolding same_outside_journal_def by blast
  qed
  then have "map (contents d') [unat b * 4096..<unat b * 4096 + 4096]
      = map (contents d) [unat b * 4096..<unat b * 4096 + 4096]" by simp
  moreover have "fsize d' = fsize d" using assms(1) by (simp add: same_outside_journal_def)
  ultimately show ?thesis by (simp add: read_block_def file_read_def p)
qed

subsection \<open>The fresh example image\<close>

lemma length_example_blocks [simp]:
  "length example_bitmap = 4096" "length example_inode_block0 = 4096"
  by (simp_all add: example_bitmap_def example_inode_block0_def)

lemma fsize_fresh_image: "fsize fresh_image = 85 * 4096"
  by (simp add: fresh_image_def fsize_write_block zero_image_def)

lemma read_block_zero_image:
  "unat (b * 4096) + 4096 \<le> 85 * 4096 \<Longrightarrow> read_block zero_image b = Inr (replicate 4096 0)"
  by (simp add: read_block_def file_read_zero_image)

lemma read_fresh_image:
  "read_block fresh_image 17 = Inr example_bitmap"
  "read_block fresh_image 19 = Inr example_inode_block0"
  "read_block fresh_image 20 = Inr (replicate 4096 0)"
  "read_block fresh_image 21 = Inr example_dir_block"
proof -
  let ?d1 = "write_block zero_image 17 example_bitmap"
  let ?d2 = "write_block ?d1 19 example_inode_block0"
  have fs: "fsize zero_image = 85 * 4096" "fsize ?d1 = 85 * 4096" "fsize ?d2 = 85 * 4096"
    by (simp_all add: fsize_write_block zero_image_def)
  show "read_block fresh_image 21 = Inr example_dir_block"
    unfolding fresh_image_def by (rule read_block_write_block_same) simp
  have "read_block fresh_image 19 = read_block ?d2 19"
    unfolding fresh_image_def by (rule read_block_write_block_other) (simp_all add: fs)
  then show "read_block fresh_image 19 = Inr example_inode_block0"
    by (simp add: read_block_write_block_same)
  have "read_block fresh_image 17 = read_block ?d2 17"
    unfolding fresh_image_def by (rule read_block_write_block_other) (simp_all add: fs)
  also have "\<dots> = read_block ?d1 17"
    by (rule read_block_write_block_other) (simp_all add: fs)
  finally show "read_block fresh_image 17 = Inr example_bitmap"
    by (simp add: read_block_write_block_same)
  have "read_block fresh_image 20 = read_block ?d2 20"
    unfolding fresh_image_def by (rule read_block_write_block_other) (simp_all add: fs)
  also have "\<dots> = read_block ?d1 20"
    by (rule read_block_write_block_other) (simp_all add: fs)
  also have "\<dots> = read_block zero_image 20"
    by (rule read_block_write_block_other) (simp_all add: fs)
  finally show "read_block fresh_image 20 = Inr (replicate 4096 0)"
    by (simp add: read_block_zero_image)
qed

lemma file_read_write_block_other:
  assumes "q + n \<le> unat (b * 4096) \<or> unat (b * 4096) + length x \<le> q" "q + n \<le> fsize d"
  shows "file_read (write_block d b x) q n = file_read d q n"
  using assms by (simp add: write_block_def file_read_write_other)

lemma read_header_fresh_image:
  "read_journal_bytes example_sb fresh_image 0 8 = Inr (replicate 8 0)"
proof -
  let ?d1 = "write_block zero_image 17 example_bitmap"
  let ?d2 = "write_block ?d1 19 example_inode_block0"
  have fs: "fsize zero_image = 85 * 4096" "fsize ?d1 = 85 * 4096" "fsize ?d2 = 85 * 4096"
    by (simp_all add: fsize_write_block zero_image_def)
  have "file_read fresh_image 4096 8 = file_read ?d2 4096 8"
    unfolding fresh_image_def by (rule file_read_write_block_other) (simp_all add: fs)
  also have "\<dots> = file_read ?d1 4096 8"
    by (rule file_read_write_block_other) (simp_all add: fs)
  also have "\<dots> = file_read zero_image 4096 8"
    by (rule file_read_write_block_other) (simp_all add: fs)
  finally show ?thesis
    by (simp add: read_journal_bytes_def example_sb_def file_read_zero_image)
qed

lemma rd32_zero: "rd32 (replicate 8 0) 0 = 0"
  by (simp add: rd32_def)

lemma journal_fits_fresh_image: "journal_fits example_sb fresh_image"
  by (simp add: journal_fits_def fsize_fresh_image example_sb_def)

lemma journal_log_fresh_image: "journal_log example_sb fresh_image []"
  unfolding journal_log_def using read_header_fresh_image by (auto simp add: rd32_zero)

lemma find_free_inode_example: "find_free_inode example_bitmap = Some 1"
proof -
  have "[1..<64] = 1 # [2..<64]" by (simp add: upt_conv_Cons)
  moreover have "bit_clear example_bitmap 1"
    by (simp add: bit_clear_def example_bitmap_def)
  ultimately show ?thesis by (simp add: find_free_inode_def)
qed

lemma root_pointer_example: "rd32 example_inode_block0 8 = 21"
  using rd32_le32_at [of "le16 2 @ le16 2 @ le32 64" 21 "replicate 4084 0"]
  by (simp add: example_inode_block0_def)

lemma find_free_dirent_example: "find_free_dirent example_dir_block a_txt = Inr 2"
proof -
  have 1: "length example_dir_block = BLOCK_SIZE" "length a_txt \<le> 27" "0 \<notin> set a_txt"
    by (simp_all add: a_txt_def)
  have nm: "\<not> (\<exists>i<128. dirent_used example_dir_block i \<and> dirent_name example_dir_block i = a_txt)"
    by (rule example_dir_block_no_match) (simp_all add: a_txt_def)
  have fr: "\<exists>i<128. \<not> dirent_used example_dir_block i"
    using example_dir_block_used(3) [of 2] by (intro exI [of _ 2]) simp
  from scan_dirents_result [OF 1, of "[0..<128]" None] nm fr
    find_upt_least [of 128 "\<lambda>i. \<not> dirent_used example_dir_block i"] example_dir_block_least
  show ?thesis by (auto simp add: find_free_dirent_def)
qed

lemma create_on_fresh_image:
  "journal_create example_sb t fresh_image a_txt =
     Inr (write_transaction example_sb fresh_image 8 False 21
            (fst (prepare_blocks t example_bitmap example_inode_block0 (replicate 4096 0)
                    example_dir_block 1 2 a_txt))
            (fst (snd (prepare_blocks t example_bitmap example_inode_block0 (replicate 4096 0)
                    example_dir_block 1 2 a_txt)))
            (fst (snd (snd (prepare_blocks t example_bitmap example_inode_block0 (replicate 4096 0)
                    example_dir_block 1 2 a_txt))))
            (snd (snd (snd (prepare_blocks t example_bitmap example_inode_block0 (replicate 4096 0)
                    example_dir_block 1 2 a_txt)))), 1)"
proof -
  have sb: "inode_bitmap example_sb = 17" "inode_start example_sb = 19"
    "inode_start example_sb + 1 = 20"
    by (simp_all add: example_sb_def)
  have len: "length a_txt \<le> 27" by (simp add: a_txt_def)
  have "journal_create example_sb t fresh_image a_txt =
     Inr (write_transaction example_sb fresh_image
            (if rd32 (replicate 8 0) 0 \<noteq> JOURNAL_MAGIC then 8 else rd32 (replicate 8 0) 4)
            (32 \<le> (1::nat)) (rd32 example_inode_block0 8)
            (fst (prepare_blocks t example_bitmap example_inode_block0 (replicate 4096 0)
                    example_dir_block 1 2 a_txt))
            (fst (snd (prepare_blocks t example_bitmap example_inode_block0 (replicate 4096 0)
                    example_dir_block 1 2 a_txt)))
            (fst (snd (snd (prepare_blocks t example_bitmap example_inode_block0 (replicate 4096 0)
                    example_dir_block 1 2 a_txt))))
            (snd (snd (snd (prepare_blocks t example_bitmap example_inode_block0 (replicate 4096 0)
                    example_dir_block 1 2 a_txt)))), 1)"
    by (rule journal_create_success [where jh = "replicate 8 0" and bm = example_bitmap
          and dir = example_dir_block and slot = 2])
      (simp_all add: sb read_fresh_image read_header_fresh_image rd32_zero find_free_inode_example
        root_pointer_example find_free_dirent_example len)
  then show ?thesis by (simp add: rd32_zero root_pointer_example)
qed

lemma journal_holds_log: "journal_holds sb d rs \<Longrightarrow> journal_log sb d rs"
  by (simp add: journal_log_def)

lemma journal_log_header:
  assumes "journal_log sb d rs"
  obtains jh where "read_journal_bytes sb d 0 8 = Inr jh"
  using assms journal_holds_header unfolding journal_log_def by blast

lemma same_outside_fits:
  "same_outside_journal sb d d' \<Longrightarrow> journal_fits sb d \<Longrightarrow> journal_fits sb d'"
  by (simp add: journal_fits_def same_outside_journal_def)

lemma create_step:
  assumes fits: "journal_fits sb d" and log: "journal_log sb d rs"
    and room: "8 + length (enc_recs rs) + 16420 \<le> 65536"
    and fn: "length fn \<le> 27"
    and rb: "read_block d (inode_bitmap sb) = Inr bm" "find_free_inode bm = Some k"
    "read_block d (inode_start sb) = Inr b0" "read_block d (inode_start sb + 1) = Inr b1"
    "read_block d (rd32 b0 8) = Inr dir" "find_free_dirent dir fn = Inr slot"
    and pb: "prepare_blocks t bm b0 b1 dir k slot fn = (bm', b0', b1', dir')"
  shows "\<exists>d'. journal_create sb t d fn = Inr (d', k)
           \<and> journal_holds sb d' (rs @ transaction_records sb (32 \<le> k) (rd32 b0 8) bm' b0' b1' dir')
           \<and> same_outside_journal sb d d'"
proof -
  from log obtain jh where jh: "read_journal_bytes sb d 0 8 = Inr jh" by (rule journal_log_header)
  define used where "used = (if rd32 jh 0 \<noteq> JOURNAL_MAGIC then 8 else rd32 jh 4)"
  have cap: "8 + length (enc_recs rs) \<le> 65536" using room by simp
  from journal_log_read(1) [OF fits log cap jh]
  have un: "unat used = 8 + length (enc_recs rs)" by (simp add: used_def)
  have "unat used + unat (16420 :: u32) < 2 ^ LENGTH(32)" using un room by simp
  then have "unat (used + 16420) = unat used + 16420"
    by (simp add: unat_add_lem [THEN iffD1])
  then have chk: "\<not> used + 16420 > 65536"
    using un room by (simp add: word_less_nat_alt)
  have c: "journal_create sb t d fn =
      Inr (write_transaction sb d used (32 \<le> k) (rd32 b0 8) bm' b0' b1' dir', k)"
    unfolding used_def using fn jh chk [unfolded used_def] rb pb by (rule journal_create_success)
  from journal_create_effect [OF fits log cap c] rb pb
  show ?thesis using c by auto
qed

lemma journal_create_full:
  assumes "length fn \<le> 27" "read_journal_bytes sb d 0 8 = Inr jh"
    "rd32 jh 0 = JOURNAL_MAGIC" "rd32 jh 4 + 16420 > 65536"
  shows "journal_create sb t d fn = Inl JournalFull"
  using assms by (simp add: journal_create_def)

lemma find_free_dirent_example_name:
  assumes "length fn \<le> 27" "0 \<notin> set fn" "fn \<noteq> [0x2E]" "fn \<noteq> [0x2E, 0x2E]"
  shows "find_free_dirent example_dir_block fn = Inr 2"
proof -
  have 1: "length example_dir_block = BLOCK_SIZE" by simp
  have nm: "\<not> (\<exists>i<128. dirent_used example_dir_block i \<and> dirent_name example_dir_block i = fn)"
    using assms(3,4) by (rule example_dir_block_no_match)
  have fr: "\<exists>i<128. \<not> dirent_used example_dir_block i"
    using example_dir_block_used(3) [of 2] by (intro exI [of _ 2]) simp
  from scan_dirents_result [OF 1 assms(1,2), of "[0..<128]" None] nm fr
    find_upt_least [of 128 "\<lambda>i. \<not> dirent_used example_dir_block i"] example_dir_block_least
  show ?thesis by (auto simp add: find_free_dirent_def)
qed

lemma same_outside_example_reads:
  assumes "same_outside_journal example_sb fresh_image d"
  shows "read_block d 17 = Inr example_bitmap" "read_block d 19 = Inr example_inode_block0"
    "read_block d 20 = Inr (replicate 4096 0)" "read_block d 21 = Inr example_dir_block"
  using same_outside_read_block [OF assms, of 17] same_outside_read_block [OF assms, of 19]
    same_outside_read_block [OF assms, of 20] same_outside_read_block [OF assms, of 21]
  by (simp_all add: example_sb_def read_fresh_image)

lemma create_on_example:
  assumes same: "same_outside_journal example_sb fresh_image d"
    and log: "journal_log example_sb d rs"
    and room: "8 + length (enc_recs rs) + 16420 \<le> 65536"
    and fn: "length fn \<le> 27" "0 \<notin> set fn" "fn \<noteq> [0x2E]" "fn \<noteq> [0x2E, 0x2E]"
  shows "\<exists>d' txn. journal_create example_sb t d fn = Inr (d', 1)
           \<and> journal_holds example_sb d' (rs @ txn) \<and> length (enc_recs txn) = 12316
           \<and> same_outside_journal example_sb fresh_image d'"
proof -
  have fits: "journal_fits example_sb d"
    using same journal_fits_fresh_image by (rule same_outside_fits)
  have sb: "inode_bitmap example_sb = 17" "inode_start example_sb = 19"
    "inode_start example_sb + 1 = 20"
    by (simp_all add: example_sb_def)
  note rd = same_outside_example_reads [OF same]
  obtain bm' b0' b1' dir' where pb: "prepare_blocks t example_bitmap example_inode_block0
      (replicate 4096 0) example_dir_block 1 2 fn = (bm', b0', b1', dir')"
    by (metis prod_cases4)
  have lens: "length bm' = 4096" "length b0' = 4096" "length b1' = 4096" "length dir' = 4096"
    using prepare_blocks_lengths [OF pb] by simp_all
  let ?txn = "transaction_records example_sb (32 \<le> (1::nat)) (rd32 example_inode_block0 8) bm' b0' b1' dir'"
  have "\<exists>d'. journal_create example_sb t d fn = Inr (d', 1)
           \<and> journal_holds example_sb d' (rs @ ?txn) \<and> same_outside_journal example_sb d d'"
    by (rule create_step [OF fits log room fn(1) _ _ _ _ _ _ pb])
      (simp_all add: sb rd find_free_inode_example root_pointer_example
        find_free_dirent_example_name [OF fn])
  then obtain d' where d': "journal_create example_sb t d fn = Inr (d', 1)"
    "journal_holds example_sb d' (rs @ ?txn)" "same_outside_journal example_sb d d'" by blast
  have "length (enc_recs ?txn) = 12316"
    using length_transaction_records [OF lens, of example_sb "32 \<le> (1::nat)"] by simp
  moreover have "same_outside_journal example_sb fresh_image d'"
    using same d'(3) by (rule same_outside_journal_trans)
  ultimately show ?thesis using d'(1,2) by blast
qed

lemma f_txt_name:
  "c \<noteq> 0 \<Longrightarrow> length (f_txt c) \<le> 27 \<and> 0 \<notin> set (f_txt c) \<and> f_txt c \<noteq> [0x2E] \<and> f_txt c \<noteq> [0x2E, 0x2E]"
  by (auto simp add: f_txt_def)

lemma inode_type_table:
  assumes "length b0 = 4096" "i < 64"
  shows "inode_type (b0 @ b1) i = (if i < 32 then inode_type b0 i else inode_type b1 (i - 32))"
proof (cases "i < 32")
  case True
  then have "i * 128 + 2 \<le> length b0" using assms by simp
  then show ?thesis using True by (simp add: inode_type_def rd16_append_left)
next
  case False
  then have "i * 128 = length b0 + (i - 32) * 128" using assms by simp
  then show ?thesis using False rd16_append_right [of b0 b1 "(i - 32) * 128"]
    by (simp add: inode_type_def)
qed

lemma new_inode_bytes_eq:
  "new_inode_bytes t = le16 1 @ le16 1 @ le32 0 @ replicate 32 0 @ le32 t @ le32 t"
  by (simp add: new_inode_bytes_def concat_direct_zero)

lemma new_inode_fields:
  "rd16 (new_inode_bytes t) 0 = 1"
  "rd32 (new_inode_bytes t) 4 = 0"
  "j < 8 \<Longrightarrow> rd32 (new_inode_bytes t) (8 + j * 4) = 0"
proof -
  show "rd16 (new_inode_bytes t) 0 = 1"
    using rd16_le16_0 [of 1] by (simp add: new_inode_bytes_eq)
  show "rd32 (new_inode_bytes t) 4 = 0"
    using rd32_le32_at [of "le16 1 @ le16 1" 0] by (simp add: new_inode_bytes_eq)
  show "rd32 (new_inode_bytes t) (8 + j * 4) = 0" if "j < 8"
  proof -
    let ?pre = "le16 1 @ le16 1 @ le32 0"
    have e: "new_inode_bytes t = ?pre @ (replicate 32 0 @ le32 t @ le32 t)"
      by (simp add: new_inode_bytes_eq)
    have "rd32 (new_inode_bytes t) (length ?pre + j * 4) = rd32 (replicate 32 0 @ le32 t @ le32 t) (j * 4)"
      unfolding e by (rule rd32_append_right)
    also have "\<dots> = rd32 (replicate 32 0) (j * 4)"
      using that by (intro rd32_append_left) simp
    also have "\<dots> = 0" using that by (simp add: rd32_def)
    finally show ?thesis by simp
  qed
qed

lemma init_inode_type:
  assumes "length blk = 4096" "idx < 32" "j < 32"
  shows "inode_type (init_inode blk idx t) j = (if j = idx then 1 else inode_type blk j)"
proof (cases "j = idx")
  case True
  have "rd16 (put_bytes blk (idx * 128) (new_inode_bytes t)) (idx * 128 + 0)
      = rd16 (new_inode_bytes t) 0"
    using assms by (intro rd16_put_bytes_inside) simp_all
  then show ?thesis using True by (simp add: inode_type_def init_inode_def new_inode_fields)
next
  case False
  then have "j * 128 + 2 \<le> idx * 128 \<or> idx * 128 + 48 \<le> j * 128" by arith
  then have "rd16 (put_bytes blk (idx * 128) (new_inode_bytes t)) (j * 128) = rd16 blk (j * 128)"
    using assms by (intro rd16_put_bytes_outside) simp_all
  then show ?thesis using False by (simp add: inode_type_def init_inode_def)
qed

lemma init_inode_fields:
  assumes "length blk = 4096" "idx < 32"
  shows "inode_size (init_inode blk idx t) idx = 0"
    and "j < 8 \<Longrightarrow> inode_direct (init_inode blk idx t) idx j = 0"
proof -
  have "rd32 (put_bytes blk (idx * 128) (new_inode_bytes t)) (idx * 128 + 4)
      = rd32 (new_inode_bytes t) 4"
    using assms by (intro rd32_put_bytes_inside) simp_all
  then show "inode_size (init_inode blk idx t) idx = 0"
    by (simp add: inode_size_def init_inode_def new_inode_fields)
  show "inode_direct (init_inode blk idx t) idx j = 0" if "j < 8"
  proof -
    have "rd32 (put_bytes blk (idx * 128) (new_inode_bytes t)) (idx * 128 + (8 + j * 4))
        = rd32 (new_inode_bytes t) (8 + j * 4)"
      using assms that by (intro rd32_put_bytes_inside) simp_all
    then show ?thesis using that
      by (simp add: inode_direct_def init_inode_def new_inode_fields add.assoc)
  qed
qed

lemma init_inode_root:
  assumes "length blk = 4096" "idx < 32" "1 \<le> idx"
  shows "rd32 (init_inode blk idx t) 8 = rd32 blk 8"
  unfolding init_inode_def using assms by (intro rd32_put_bytes_outside) simp_all

lemma root_size_type:
  assumes "length blk = 4096" "j < 32"
  shows "inode_type (put_bytes blk 4 (le32 v)) j = inode_type blk j"
proof -
  have "j * 128 + 2 \<le> 4 \<or> 4 + 4 \<le> j * 128" by arith
  then show ?thesis unfolding inode_type_def using assms
    by (intro rd16_put_bytes_outside) simp_all
qed

lemma root_size_root:
  assumes "length blk = 4096"
  shows "rd32 (put_bytes blk 4 (le32 v)) 8 = rd32 blk 8"
  using assms by (intro rd32_put_bytes_outside) simp_all

lemma root_size_fields:
  assumes "length blk = 4096" "1 \<le> idx" "idx < 32"
  shows "inode_size (put_bytes blk 4 (le32 v)) idx = inode_size blk idx"
    and "j < 8 \<Longrightarrow> inode_direct (put_bytes blk 4 (le32 v)) idx j = inode_direct blk idx j"
  unfolding inode_size_def inode_direct_def using assms
  by (auto intro!: rd32_put_bytes_outside)

lemma prepare_blocks_parts:
  assumes "prepare_blocks t bm b0 b1 dir k slot fn = (bm', b0', b1', dir')"
  shows "bm' = set_bit_at bm k"
    and "dir' = put_dirent dir slot k fn"
    and "b1' = (if 32 \<le> k then init_inode b1 (k - 32) t else b1)"
    and "b0' = (case get_highest_dirent dir' of
                  None \<Rightarrow> (if 32 \<le> k then b0 else init_inode b0 k t)
                | Some h \<Rightarrow> put_bytes (if 32 \<le> k then b0 else init_inode b0 k t) 4
                              (le32 (of_nat ((h + 1) * 32))))"
  using assms by (auto simp add: prepare_blocks_def Let_def)

lemma prepare_blocks_types:
  assumes pb: "prepare_blocks t bm b0 b1 dir k slot fn = (bm', b0', b1', dir')"
    and lens: "length b0 = 4096" "length b1 = 4096"
    and k: "1 \<le> k" "k < 64" and i: "i < 32"
  shows "inode_type b0' i = (if i = k then 1 else inode_type b0 i)"
    and "inode_type b1' i = (if i + 32 = k then 1 else inode_type b1 i)"
proof -
  define c where "c = (if 32 \<le> k then b0 else init_inode b0 k t)"
  have lc: "length c = 4096" using lens k by (simp add: c_def length_init_inode)
  have tc: "inode_type c i = (if i = k then 1 else inode_type b0 i)"
    using lens k i by (auto simp add: c_def init_inode_type)
  have b0': "b0' = (case get_highest_dirent dir' of None \<Rightarrow> c
                    | Some h \<Rightarrow> put_bytes c 4 (le32 (of_nat ((h + 1) * 32))))"
    unfolding c_def by (rule prepare_blocks_parts(4) [OF pb])
  show "inode_type b0' i = (if i = k then 1 else inode_type b0 i)"
  proof (cases "get_highest_dirent dir'")
    case None
    then show ?thesis using tc by (simp add: b0')
  next
    case (Some h)
    then have "inode_type b0' i = inode_type c i"
      using root_size_type [OF lc i] by (simp add: b0')
    then show ?thesis using tc by simp
  qed
  show "inode_type b1' i = (if i + 32 = k then 1 else inode_type b1 i)"
    unfolding prepare_blocks_parts(3) [OF pb]
    using lens k i by (auto simp add: init_inode_type)
qed

lemma prepare_blocks_root:
  assumes pb: "prepare_blocks t bm b0 b1 dir k slot fn = (bm', b0', b1', dir')"
    and lens: "length b0 = 4096" and k: "1 \<le> k" "k < 64"
  shows "rd32 b0' 8 = rd32 b0 8"
proof -
  define c where "c = (if 32 \<le> k then b0 else init_inode b0 k t)"
  have lc: "length c = 4096" using lens k by (simp add: c_def length_init_inode)
  have rc: "rd32 c 8 = rd32 b0 8" using lens k by (simp add: c_def init_inode_root)
  have b0': "b0' = (case get_highest_dirent dir' of None \<Rightarrow> c
                    | Some h \<Rightarrow> put_bytes c 4 (le32 (of_nat ((h + 1) * 32))))"
    unfolding c_def by (rule prepare_blocks_parts(4) [OF pb])
  show ?thesis
  proof (cases "get_highest_dirent dir'")
    case None
    then show ?thesis using rc by (simp add: b0')
  next
    case (Some h)
    then have "rd32 b0' 8 = rd32 c 8"
      using root_size_root [OF lc] by (simp add: b0')
    then show ?thesis using rc by simp
  qed
qed

lemma prepare_blocks_good:
  assumes pb: "prepare_blocks t bm b0 b1 dir k slot fn = (bm', b0', b1', dir')"
    and lens: "length bm = 4096" "length b0 = 4096" "length b1 = 4096" "length dir = 4096"
    and k: "find_free_inode bm = Some k" and slot: "slot < 128"
    and agree: "bitmap_agrees bm (b0 @ b1)"
  shows "good_blocks b1 k (rd32 b0 8) (bm', b0', b1', dir')"
proof -
  note kk = find_free_inode_Some [OF k]
  note l' = prepare_blocks_lengths [OF pb lens kk(2) slot]
  have root: "rd32 b0' 8 = rd32 b0 8"
    using pb lens(2) kk(1,2) by (rule prepare_blocks_root)
  have b1: "k < 32 \<longrightarrow> b1' = b1" using prepare_blocks_parts(3) [OF pb] by simp
  have ag: "bitmap_agrees bm' (b0' @ b1')"
    unfolding bitmap_agrees_def
  proof (intro allI impI)
    fix i :: nat assume i: "i < 64"
    have bitc: "bit_clear bm' i \<longleftrightarrow> i \<noteq> k \<and> bit_clear bm i"
      unfolding prepare_blocks_parts(1) [OF pb] using i lens(1)
      by (intro bit_clear_set_bit_at) simp
    have old: "\<not> bit_clear bm i \<longleftrightarrow> inode_type (b0 @ b1) i \<noteq> 0"
      using agree i by (simp add: bitmap_agrees_def)
    have ty: "inode_type (b0' @ b1') i = (if i = k then 1 else inode_type (b0 @ b1) i)"
    proof (cases "i < 32")
      case True
      then show ?thesis
        using prepare_blocks_types(1) [OF pb lens(2,3) kk(1,2), of i] i l' lens
        by (simp add: inode_type_table)
    next
      case False
      then have "i - 32 < 32" "(i - 32) + 32 = i" using i by simp_all
      then show ?thesis
        using prepare_blocks_types(2) [OF pb lens(2,3) kk(1,2), of "i - 32"] i l' lens False
        by (auto simp add: inode_type_table)
    qed
    show "(\<not> bit_clear bm' i) = (inode_type (b0' @ b1') i \<noteq> 0)"
      using bitc old ty by auto
  qed
  show ?thesis using l' root b1 ag by simp
qed

lemma blocks_disjoint:
  fixes b b' :: u32
  assumes "b \<noteq> b'" "unat b < 2 ^ 20" "unat b' < 2 ^ 20"
  shows "unat (b' * 4096) + 4096 \<le> unat (b * 4096) \<or> unat (b * 4096) + 4096 \<le> unat (b' * 4096)"
proof -
  have p: "unat (b * 4096) = unat b * 4096" "unat (b' * 4096) = unat b' * 4096"
    using assms(2,3) by (simp_all add: unat_block_pos)
  from assms(1) have "unat b \<noteq> unat b'" by (simp add: word_unat_eq_iff)
  then show ?thesis unfolding p by arith
qed

lemma read_block_within: "read_block d b = Inr x \<Longrightarrow> unat (b * 4096) + 4096 \<le> fsize d"
  by (simp add: read_block_def file_read_Inr_iff)

lemma write_block_within:
  assumes "unat (b * 4096) + 4096 \<le> fsize d" "length x = 4096"
  shows "fsize (write_block d b x) = fsize d"
  using assms by (simp add: fsize_write_block)

text \<open>The writes that the commit record of one staged transaction applies.\<close>

lemma replay_txn_of:
  assumes "length bm' = 4096" "length b0' = 4096" "length b1' = 4096" "length dir' = 4096"
  shows "replay d [] n (txn_of sb k root (bm', b0', b1', dir') @ rs) =
     replay (write_block
               (if 32 \<le> k
                then write_block (write_block (write_block d (inode_bitmap sb) bm') (inode_start sb) b0')
                       (inode_start sb + 1) b1'
                else write_block (write_block d (inode_bitmap sb) bm') (inode_start sb) b0')
               root dir')
       [] (Suc n) rs"
  by (simp add: transaction_records_def)

lemma apply_txn_reads:
  fixes k :: nat
  assumes lay: "metadata_layout sb root"
    and lens: "length bm' = 4096" "length b0' = 4096" "length b1' = 4096" "length dir' = 4096"
    and within: "unat (inode_bitmap sb * 4096) + 4096 \<le> fsize d"
      "unat (inode_start sb * 4096) + 4096 \<le> fsize d"
      "unat ((inode_start sb + 1) * 4096) + 4096 \<le> fsize d"
      "unat (root * 4096) + 4096 \<le> fsize d"
  defines "d' \<equiv> write_block
               (if 32 \<le> k
                then write_block (write_block (write_block d (inode_bitmap sb) bm') (inode_start sb) b0')
                       (inode_start sb + 1) b1'
                else write_block (write_block d (inode_bitmap sb) bm') (inode_start sb) b0')
               root dir'"
  shows "fsize d' = fsize d"
    and "read_block d' (inode_bitmap sb) = Inr bm'"
    and "read_block d' (inode_start sb) = Inr b0'"
    and "read_block d' (inode_start sb + 1) = (if 32 \<le> k then Inr b1' else read_block d (inode_start sb + 1))"
    and "read_block d' root = Inr dir'"
proof -
  let ?bm = "inode_bitmap sb" and ?is = "inode_start sb" and ?is1 = "inode_start sb + 1"
  define d1 where "d1 = write_block d ?bm bm'"
  define d2 where "d2 = write_block d1 ?is b0'"
  define d3 where "d3 = (if 32 \<le> k then write_block d2 ?is1 b1' else d2)"
  have d': "d' = write_block d3 root dir'" by (simp add: d'_def d1_def d2_def d3_def)
  from lay have ne: "?bm \<noteq> ?is" "?bm \<noteq> ?is1" "?bm \<noteq> root" "?is \<noteq> ?is1" "?is \<noteq> root" "?is1 \<noteq> root"
    and lt: "unat ?bm < 2 ^ 20" "unat ?is < 2 ^ 20" "unat ?is1 < 2 ^ 20" "unat root < 2 ^ 20"
    by (auto simp add: metadata_layout_def)
  have f1: "fsize d1 = fsize d" unfolding d1_def using within lens by (intro write_block_within)
  have f2: "fsize d2 = fsize d" unfolding d2_def using within lens f1 by (simp add: write_block_within)
  have f3: "fsize d3 = fsize d" unfolding d3_def using within lens f2 by (simp add: write_block_within)
  show f4: "fsize d' = fsize d" unfolding d' using within lens f3 by (simp add: write_block_within)
  note dj = blocks_disjoint
  show "read_block d' root = Inr dir'" unfolding d' using lens(4) by (rule read_block_write_block_same)
  have r3: "read_block d' b = read_block d3 b"
    if "b \<noteq> root" "unat b < 2 ^ 20" "unat (b * 4096) + 4096 \<le> fsize d" for b
    unfolding d' using that dj [of b root] lt lens f3
    by (intro read_block_write_block_other) auto
  have r2: "read_block d3 b = read_block d2 b"
    if "b \<noteq> ?is1" "unat b < 2 ^ 20" "unat (b * 4096) + 4096 \<le> fsize d" for b
    unfolding d3_def using that dj [of b ?is1] lt lens f2
    by (auto intro!: read_block_write_block_other)
  have r1: "read_block d2 b = read_block d1 b"
    if "b \<noteq> ?is" "unat b < 2 ^ 20" "unat (b * 4096) + 4096 \<le> fsize d" for b
    unfolding d2_def using that dj [of b ?is] lt lens f1
    by (intro read_block_write_block_other) auto
  have r0: "read_block d1 b = read_block d b"
    if "b \<noteq> ?bm" "unat b < 2 ^ 20" "unat (b * 4096) + 4096 \<le> fsize d" for b
    unfolding d1_def using that dj [of b ?bm] lt lens
    by (intro read_block_write_block_other) auto
  have "read_block d' ?bm = read_block d1 ?bm"
    using r3 [of ?bm] r2 [of ?bm] r1 [of ?bm] ne lt within by simp
  then show "read_block d' ?bm = Inr bm'"
    unfolding d1_def using lens by (simp add: read_block_write_block_same)
  have "read_block d' ?is = read_block d2 ?is"
    using r3 [of ?is] r2 [of ?is] ne lt within by simp
  then show "read_block d' ?is = Inr b0'"
    unfolding d2_def using lens by (simp add: read_block_write_block_same)
  have a: "read_block d' ?is1 = read_block d3 ?is1"
    using r3 [of ?is1] ne lt within by simp
  show "read_block d' ?is1 = (if 32 \<le> k then Inr b1' else read_block d ?is1)"
  proof (cases "32 \<le> k")
    case True
    then show ?thesis unfolding a d3_def using lens by (simp add: read_block_write_block_same)
  next
    case False
    then have "read_block d3 ?is1 = read_block d2 ?is1" by (simp add: d3_def)
    also have "\<dots> = read_block d ?is1"
      using r1 [of ?is1] r0 [of ?is1] ne lt within by simp
    finally show ?thesis using False a by simp
  qed
qed

lemma replay_staged:
  fixes k :: nat
  assumes lay: "metadata_layout sb root"
    and good: "list_all (good_blocks b1 k root) staged" and ne: "staged \<noteq> []"
    and within: "unat (inode_bitmap sb * 4096) + 4096 \<le> fsize d"
      "unat (inode_start sb * 4096) + 4096 \<le> fsize d"
      "unat ((inode_start sb + 1) * 4096) + 4096 \<le> fsize d"
      "unat (root * 4096) + 4096 \<le> fsize d"
    and b1: "k < 32 \<longrightarrow> read_block d (inode_start sb + 1) = Inr b1"
  shows "\<exists>d''. replay d [] n (concat (map (txn_of sb k root) staged)) = (d'', [], n + length staged)
      \<and> fsize d'' = fsize d
      \<and> read_block d'' (inode_bitmap sb) = Inr (fst (last staged))
      \<and> read_block d'' (inode_start sb) = Inr (fst (snd (last staged)))
      \<and> read_block d'' (inode_start sb + 1) = Inr (fst (snd (snd (last staged))))
      \<and> read_block d'' root = Inr (snd (snd (snd (last staged))))"
  using good ne within b1
proof (induction staged arbitrary: d n)
  case Nil
  then show ?case by simp
next
  case (Cons T rest)
  obtain bm' b0' b1' dir' where T: "T = (bm', b0', b1', dir')" by (cases T) auto
  from Cons.prems(1) T have lens: "length bm' = 4096" "length b0' = 4096" "length b1' = 4096"
    "length dir' = 4096" and kb: "k < 32 \<longrightarrow> b1' = b1"
    by simp_all
  define d1 where "d1 = write_block
               (if 32 \<le> k
                then write_block (write_block (write_block d (inode_bitmap sb) bm') (inode_start sb) b0')
                       (inode_start sb + 1) b1'
                else write_block (write_block d (inode_bitmap sb) bm') (inode_start sb) b0')
               root dir'"
  note rd = apply_txn_reads [OF lay lens Cons.prems(3,4,5,6), of k, folded d1_def]
  have step: "replay d [] n (concat (map (txn_of sb k root) (T # rest)))
      = replay d1 [] (Suc n) (concat (map (txn_of sb k root) rest))"
    unfolding d1_def T using replay_txn_of [OF lens, of d n sb k root] by simp
  have is1: "read_block d1 (inode_start sb + 1) = Inr b1'"
    using rd(4) kb Cons.prems(7) by auto
  show ?case
  proof (cases "rest = []")
    case True
    then show ?thesis using step rd is1 T by simp
  next
    case False
    have g: "list_all (good_blocks b1 k root) rest" using Cons.prems(1) by simp
    have w: "unat (inode_bitmap sb * 4096) + 4096 \<le> fsize d1"
      "unat (inode_start sb * 4096) + 4096 \<le> fsize d1"
      "unat ((inode_start sb + 1) * 4096) + 4096 \<le> fsize d1"
      "unat (root * 4096) + 4096 \<le> fsize d1"
      using Cons.prems(3,4,5,6) rd(1) by simp_all
    have b: "k < 32 \<longrightarrow> read_block d1 (inode_start sb + 1) = Inr b1"
      using is1 kb by auto
    from Cons.IH [OF g False w b, of "Suc n"] step rd(1) False
    show ?thesis by auto
  qed
qed

lemma layout_blocks:
  assumes "metadata_layout sb root"
  shows "unat (inode_bitmap sb) < 2 ^ 20" "unat (inode_start sb) < 2 ^ 20"
    "unat (inode_start sb + 1) < 2 ^ 20" "unat root < 2 ^ 20"
    "unat (inode_bitmap sb) < unat (journal_block sb) \<or> unat (journal_block sb) + 16 \<le> unat (inode_bitmap sb)"
    "unat (inode_start sb) < unat (journal_block sb) \<or> unat (journal_block sb) + 16 \<le> unat (inode_start sb)"
    "unat (inode_start sb + 1) < unat (journal_block sb) \<or> unat (journal_block sb) + 16 \<le> unat (inode_start sb + 1)"
    "unat root < unat (journal_block sb) \<or> unat (journal_block sb) + 16 \<le> unat root"
  using assms by (simp_all add: metadata_layout_def)

lemma read_block_clear_journal_outside:
  assumes fits: "journal_fits sb d"
    and b: "unat b < 2 ^ 20" "unat b < unat (journal_block sb) \<or> unat (journal_block sb) + 16 \<le> unat b"
    and within: "unat (b * 4096) + 4096 \<le> fsize d"
  shows "read_block (clear_journal sb d) b = read_block d b"
proof -
  have p: "unat (b * 4096) = unat b * 4096" using b(1) by (simp add: unat_block_pos)
  have j: "unat (journal_block sb * 4096) = unat (journal_block sb) * 4096"
    using fits by (rule journal_pos0)
  show ?thesis
    using within b(2) unfolding p j [symmetric]
    by (intro read_block_clear_journal) (auto simp add: p j)
qed

lemma journal_holds_cleared: "journal_holds sb (clear_journal sb d) []"
  using read_header_clear_journal [of sb d]
  by (simp add: journal_holds_def used_bytes_def)

lemma fsize_clear_journal:
  assumes "journal_fits sb d"
  shows "fsize (clear_journal sb d) = fsize d"
proof -
  have j: "unat (journal_block sb * 4096) = unat (journal_block sb) * 4096"
    using assms by (rule journal_pos0)
  have "unat (journal_block sb * 4096) + 8 \<le> fsize d"
    unfolding j using assms by (simp add: journal_fits_def)
  then show ?thesis by (rule clear_journal_frame(1))
qed

lemma txn_of_nonempty: "txn_of sb k root T \<noteq> []"
  by (cases T) (simp add: transaction_records_def)

lemma staged_nonempty: "staged \<noteq> [] \<Longrightarrow> concat (map (txn_of sb k root) staged) \<noteq> []"
  by (cases staged) (simp_all add: txn_of_nonempty)

lemma invariant_agrees: "invariant sb d \<Longrightarrow> image_agrees sb d"
  unfolding invariant_def image_agrees_def by blast

lemma invariantE:
  assumes "invariant sb d"
  obtains bm b0 b1 dir staged k where
    "journal_fits sb d"
    "read_block d (inode_bitmap sb) = Inr bm" "read_block d (inode_start sb) = Inr b0"
    "read_block d (inode_start sb + 1) = Inr b1" "read_block d (rd32 b0 8) = Inr dir"
    "metadata_layout sb (rd32 b0 8)"
    "bitmap_agrees bm (b0 @ b1)"
    "journal_log sb d (concat (map (txn_of sb k (rd32 b0 8)) staged))"
    "8 + length (enc_recs (concat (map (txn_of sb k (rd32 b0 8)) staged))) \<le> 65536"
    "staged \<noteq> [] \<longrightarrow> find_free_inode bm = Some k"
    "list_all (good_blocks b1 k (rd32 b0 8)) staged"
  using assms unfolding invariant_def by (elim conjE exE) simp

lemma invariantI:
  assumes "journal_fits sb d"
    "read_block d (inode_bitmap sb) = Inr bm" "read_block d (inode_start sb) = Inr b0"
    "read_block d (inode_start sb + 1) = Inr b1" "read_block d (rd32 b0 8) = Inr dir"
    "metadata_layout sb (rd32 b0 8)"
    "bitmap_agrees bm (b0 @ b1)"
    "journal_log sb d (concat (map (txn_of sb k (rd32 b0 8)) staged))"
    "8 + length (enc_recs (concat (map (txn_of sb k (rd32 b0 8)) staged))) \<le> 65536"
    "staged \<noteq> [] \<Longrightarrow> find_free_inode bm = Some k"
    "list_all (good_blocks b1 k (rd32 b0 8)) staged"
  shows "invariant sb d"
  unfolding invariant_def
  using assms by (intro conjI exI [of _ bm] exI [of _ b0] exI [of _ b1] exI [of _ dir]
        exI [of _ staged] exI [of _ k]) simp_all

lemma formatted_invariant:
  assumes "formatted sb d" "image_agrees sb d"
  shows "invariant sb d"
proof -
  from assms(1) obtain bm b0 b1 dir where
    f: "journal_fits sb d" "journal_log sb d []" "read_block d (inode_bitmap sb) = Inr bm"
    "read_block d (inode_start sb) = Inr b0" "read_block d (inode_start sb + 1) = Inr b1"
    "read_block d (rd32 b0 8) = Inr dir" "metadata_layout sb (rd32 b0 8)"
    unfolding formatted_def by blast
  from assms(2) f(3,4,5) have ag: "bitmap_agrees bm (b0 @ b1)"
    unfolding image_agrees_def by auto
  show ?thesis
    using f(1,3,4,5,6,7) ag
    by (rule invariantI [where staged = "[]" and k = 0]) (simp_all add: f(2))
qed

lemma invariant_install:
  assumes "invariant sb d"
  shows "\<exists>d' n. journal_install sb d = Some (Inr (d', n)) \<and> invariant sb d'"
proof -
  from assms obtain bm b0 b1 dir staged k where
    fits: "journal_fits sb d" and
    rd: "read_block d (inode_bitmap sb) = Inr bm" "read_block d (inode_start sb) = Inr b0"
    "read_block d (inode_start sb + 1) = Inr b1" "read_block d (rd32 b0 8) = Inr dir" and
    lay: "metadata_layout sb (rd32 b0 8)" and
    ag: "bitmap_agrees bm (b0 @ b1)" and
    log: "journal_log sb d (concat (map (txn_of sb k (rd32 b0 8)) staged))" and
    cap: "8 + length (enc_recs (concat (map (txn_of sb k (rd32 b0 8)) staged))) \<le> 65536" and
    good: "list_all (good_blocks b1 k (rd32 b0 8)) staged"
    by (rule invariantE)
  let ?root = "rd32 b0 8"
  let ?rs = "concat (map (txn_of sb k ?root) staged)"
  show ?thesis
  proof (cases "staged = []")
    case True
    with log have "journal_install sb d = Some (Inr (d, 0))"
      unfolding journal_log_def by (auto simp add: install_empty install_holds_empty)
    with assms show ?thesis by blast
  next
    case False
    then have ne: "?rs \<noteq> []" by (rule staged_nonempty)
    with log have h: "journal_holds sb d ?rs" by (auto simp add: journal_log_def)
    note w = read_block_within [OF rd(1)] read_block_within [OF rd(2)]
      read_block_within [OF rd(3)] read_block_within [OF rd(4)]
    from replay_staged [OF lay good False w, of 0] rd(3)
    obtain d'' where
      rp: "replay d [] 0 ?rs = (d'', [], length staged)" and
      fs: "fsize d'' = fsize d" and
      r: "read_block d'' (inode_bitmap sb) = Inr (fst (last staged))"
      "read_block d'' (inode_start sb) = Inr (fst (snd (last staged)))"
      "read_block d'' (inode_start sb + 1) = Inr (fst (snd (snd (last staged))))"
      "read_block d'' ?root = Inr (snd (snd (snd (last staged))))"
      by auto
    obtain bm' b0' b1' dir' where l: "last staged = (bm', b0', b1', dir')"
      by (cases "last staged") auto
    have "last staged \<in> set staged" using False by simp
    with good have gl: "good_blocks b1 k ?root (bm', b0', b1', dir')"
      unfolding l [symmetric] by (simp add: list_all_iff)
    then have root': "rd32 b0' 8 = ?root" and ag': "bitmap_agrees bm' (b0' @ b1')" by simp_all
    let ?d2 = "clear_journal sb d''"
    have inst: "journal_install sb d = Some (Inr (?d2, length staged))"
      using install_holds_clear [OF h ne] rp by simp
    have fits'': "journal_fits sb d''" using fits fs by (simp add: journal_fits_def)
    have fits2: "journal_fits sb ?d2"
      using fits'' fsize_clear_journal [OF fits''] by (simp add: journal_fits_def)
    note lb = layout_blocks [OF lay]
    have w'': "unat (inode_bitmap sb * 4096) + 4096 \<le> fsize d''"
      "unat (inode_start sb * 4096) + 4096 \<le> fsize d''"
      "unat ((inode_start sb + 1) * 4096) + 4096 \<le> fsize d''"
      "unat (?root * 4096) + 4096 \<le> fsize d''"
      using w fs by simp_all
    have r2: "read_block ?d2 (inode_bitmap sb) = Inr bm'"
      "read_block ?d2 (inode_start sb) = Inr b0'"
      "read_block ?d2 (inode_start sb + 1) = Inr b1'"
      "read_block ?d2 (rd32 b0' 8) = Inr dir'"
      using read_block_clear_journal_outside [OF fits'' lb(1) lb(5) w''(1)]
        read_block_clear_journal_outside [OF fits'' lb(2) lb(6) w''(2)]
        read_block_clear_journal_outside [OF fits'' lb(3) lb(7) w''(3)]
        read_block_clear_journal_outside [OF fits'' lb(4) lb(8) w''(4)]
        r l root' by simp_all
    have lay': "metadata_layout sb (rd32 b0' 8)" using lay root' by simp
    have "invariant sb ?d2"
      using fits2 r2 lay' ag'
      by (rule invariantI [where staged = "[]" and k = 0])
        (simp_all add: journal_log_def journal_holds_cleared)
    with inst show ?thesis by blast
  qed
qed

lemma enc_recs_concat_snoc:
  "concat (map f (xs @ [x])) = concat (map f xs) @ f x"
  by simp

lemma invariant_create:
  assumes inv: "invariant sb d" and ok: "journal_create sb t d fn = Inr (d', ino)"
  shows "invariant sb d'"
proof -
  from inv obtain bm b0 b1 dir staged k where
    fits: "journal_fits sb d" and
    rd: "read_block d (inode_bitmap sb) = Inr bm" "read_block d (inode_start sb) = Inr b0"
    "read_block d (inode_start sb + 1) = Inr b1" "read_block d (rd32 b0 8) = Inr dir" and
    lay: "metadata_layout sb (rd32 b0 8)" and
    ag: "bitmap_agrees bm (b0 @ b1)" and
    log: "journal_log sb d (concat (map (txn_of sb k (rd32 b0 8)) staged))" and
    cap: "8 + length (enc_recs (concat (map (txn_of sb k (rd32 b0 8)) staged))) \<le> 65536" and
    kf: "staged \<noteq> [] \<longrightarrow> find_free_inode bm = Some k" and
    good: "list_all (good_blocks b1 k (rd32 b0 8)) staged"
    by (rule invariantE)
  let ?root = "rd32 b0 8"
  let ?rs = "concat (map (txn_of sb k ?root) staged)"
  from journal_create_effect [OF fits log cap ok] rd
  obtain slot bm' b0' b1' dir' where
    fi: "find_free_inode bm = Some ino" and
    fd: "find_free_dirent dir fn = Inr slot" and
    pb: "prepare_blocks t bm b0 b1 dir ino slot fn = (bm', b0', b1', dir')" and
    h': "journal_holds sb d' (?rs @ transaction_records sb (32 \<le> ino) ?root bm' b0' b1' dir')" and
    cap': "8 + length (enc_recs (?rs @ transaction_records sb (32 \<le> ino) ?root bm' b0' b1' dir'))
        \<le> 65536" and
    same: "same_outside_journal sb d d'"
    by auto
  have lens: "length bm = 4096" "length b0 = 4096" "length b1 = 4096" "length dir = 4096"
    using rd by (auto dest: read_block_length)
  have gn: "good_blocks b1 ino ?root (bm', b0', b1', dir')"
    using pb lens fi find_free_dirent_bound [OF fd] ag by (rule prepare_blocks_good)
  have ke: "staged \<noteq> [] \<Longrightarrow> k = ino" using kf fi by auto
  have rs_eq: "?rs = concat (map (txn_of sb ino ?root) staged)"
    using ke by (cases "staged = []") simp_all
  have good': "list_all (good_blocks b1 ino ?root) (staged @ [(bm', b0', b1', dir')])"
    using good gn ke by (cases "staged = []") simp_all
  have new: "concat (map (txn_of sb ino ?root) (staged @ [(bm', b0', b1', dir')]))
      = ?rs @ transaction_records sb (32 \<le> ino) ?root bm' b0' b1' dir'"
    unfolding rs_eq by simp
  note lb = layout_blocks [OF lay]
  have rd': "read_block d' (inode_bitmap sb) = Inr bm" "read_block d' (inode_start sb) = Inr b0"
    "read_block d' (inode_start sb + 1) = Inr b1" "read_block d' ?root = Inr dir"
    using same_outside_read_block [OF same lb(5) lb(1)] same_outside_read_block [OF same lb(6) lb(2)]
      same_outside_read_block [OF same lb(7) lb(3)] same_outside_read_block [OF same lb(8) lb(4)]
      rd by simp_all
  have fits': "journal_fits sb d'" using same fits by (rule same_outside_fits)
  show ?thesis
    using fits' rd' lay ag
  proof (rule invariantI [where staged = "staged @ [(bm', b0', b1', dir')]" and k = ino])
    show "journal_log sb d' (concat (map (txn_of sb ino ?root) (staged @ [(bm', b0', b1', dir')])))"
      unfolding new using h' by (rule journal_holds_log)
    show "8 + length (enc_recs (concat (map (txn_of sb ino ?root) (staged @ [(bm', b0', b1', dir')]))))
        \<le> 65536"
      unfolding new using cap' .
    show "find_free_inode bm = Some ino" using fi .
    show "list_all (good_blocks b1 ino ?root) (staged @ [(bm', b0', b1', dir')])" using good' .
  qed
qed

lemma invariant_run:
  assumes "invariant sb d"
  shows "\<exists>d'. run_commands sb cmds d = Some d' \<and> invariant sb d'"
  using assms
proof (induction cmds arbitrary: d)
  case Nil
  then show ?case by simp
next
  case (Cons c cmds)
  show ?case
  proof (cases c)
    case (Create fn t)
    show ?thesis
    proof (cases "journal_create sb t d fn")
      case (Inl e)
      with Create Cons.IH [OF Cons.prems] show ?thesis by simp
    next
      case (Inr r)
      obtain d1 ino where r: "r = (d1, ino)" by (cases r)
      with Inr Cons.prems have "invariant sb d1" by (auto intro: invariant_create)
      from Cons.IH [OF this] Create Inr r show ?thesis by simp
    qed
  next
    case Install
    from invariant_install [OF Cons.prems] obtain d1 n where
      i: "journal_install sb d = Some (Inr (d1, n))" and inv: "invariant sb d1" by blast
    from Cons.IH [OF inv] Install i show ?thesis by simp
  qed
qed

lemma example_table_zero:
  assumes "12 \<le> n" "n < 8192"
  shows "(example_inode_block0 @ replicate 4096 0) ! n = 0"
proof -
  let ?pre = "le16 2 @ le16 2 @ le32 64 @ le32 21"
  have e: "example_inode_block0 @ replicate 4096 0 = ?pre @ (replicate 4084 0 @ replicate 4096 0)"
    by (simp add: example_inode_block0_def)
  have l: "length ?pre = 12" by simp
  have "(?pre @ (replicate 4084 0 @ replicate 4096 0)) ! n
      = (replicate 4084 0 @ replicate 4096 (0::byte)) ! (n - 12)"
    using assms l by (simp only: nth_append) simp
  also have "\<dots> = 0" using assms by (simp add: nth_append)
  finally show ?thesis unfolding e .
qed

lemma example_bitmap_clear:
  assumes "i < 64"
  shows "bit_clear example_bitmap i \<longleftrightarrow> i \<noteq> 0"
proof (cases "i < 8")
  case True
  then have "i div 8 = 0" "i mod 8 = i" by simp_all
  then have "bit_clear example_bitmap i \<longleftrightarrow> \<not> bit (1 :: byte) i"
    by (simp add: bit_clear_iff example_bitmap_def)
  then show ?thesis by (simp add: bit_1_iff)
next
  case False
  then have "0 < i div 8" "i div 8 < 4096" using assms by simp_all
  then have "example_bitmap ! (i div 8) = 0"
    by (simp add: example_bitmap_def nth_Cons')
  with False show ?thesis by (simp add: bit_clear_iff)
qed

lemma example_image_agrees: "image_agrees example_sb fresh_image"
proof -
  have ag: "bitmap_agrees example_bitmap (example_inode_block0 @ replicate 4096 0)"
    unfolding bitmap_agrees_def
  proof (intro allI impI)
    fix i :: nat assume i: "i < 64"
    show "(\<not> bit_clear example_bitmap i) = (inode_type (example_inode_block0 @ replicate 4096 0) i \<noteq> 0)"
    proof (cases "i = 0")
      case True
      have "rd16 (example_inode_block0 @ replicate 4096 0) 0 = 2"
        using rd16_le16_0 [of 2] by (simp add: example_inode_block0_def)
      then show ?thesis using True i by (simp add: example_bitmap_clear inode_type_def)
    next
      case False
      then have "12 \<le> i * 128" "i * 128 + 1 < 8192" using i by simp_all
      then have "rd16 (example_inode_block0 @ replicate 4096 0) (i * 128) = 0"
        by (simp add: rd16_def example_table_zero)
      then show ?thesis using False i by (simp add: example_bitmap_clear inode_type_def)
    qed
  qed
  show ?thesis
    unfolding image_agrees_def
    using ag read_fresh_image
    by (intro exI [of _ example_bitmap] exI [of _ example_inode_block0]
        exI [of _ "replicate 4096 0"]) (simp add: example_sb_def)
qed

lemma example_formatted: "formatted example_sb fresh_image"
proof -
  have lay: "metadata_layout example_sb 21"
    by (simp add: metadata_layout_def example_sb_def)
  show ?thesis
    unfolding formatted_def
    using journal_fits_fresh_image journal_log_fresh_image read_fresh_image lay
    by (intro conjI exI [of _ example_bitmap] exI [of _ example_inode_block0]
        exI [of _ "replicate 4096 0"] exI [of _ example_dir_block])
      (simp_all add: example_sb_def root_pointer_example)
qed

lemma take_drop_put_bytes_outside:
  assumes "off + length new \<le> length buf" "m + n \<le> length buf"
    "m + n \<le> off \<or> off + length new \<le> m"
  shows "take n (drop m (put_bytes buf off new)) = take n (drop m buf)"
proof (rule nth_equalityI)
  show "length (take n (drop m (put_bytes buf off new))) = length (take n (drop m buf))"
    using assms by simp
next
  fix i assume "i < length (take n (drop m (put_bytes buf off new)))"
  then have i: "i < n" "m + i < length buf" using assms by simp_all
  then show "take n (drop m (put_bytes buf off new)) ! i = take n (drop m buf) ! i"
    using assms by (auto simp add: nth_put_bytes)
qed

lemma take_drop_put_bytes_inside:
  assumes "off + length new \<le> length buf" "j + n \<le> length new"
  shows "take n (drop (off + j) (put_bytes buf off new)) = take n (drop j new)"
proof (rule nth_equalityI)
  show "length (take n (drop (off + j) (put_bytes buf off new))) = length (take n (drop j new))"
    using assms by simp
next
  fix i assume "i < length (take n (drop (off + j) (put_bytes buf off new)))"
  then have i: "i < n" using assms by simp
  then show "take n (drop (off + j) (put_bytes buf off new)) ! i = take n (drop j new) ! i"
    using assms by (simp add: nth_put_bytes add.assoc)
qed

lemma dirent_bytes_name:
  assumes "length fn \<le> 27"
  shows "drop 4 (dirent_bytes k fn) = fn @ replicate (28 - length fn) 0"
  using assms by (simp add: dirent_bytes_def)

lemma takeWhile_name:
  assumes "0 \<notin> set fn" "0 < n"
  shows "takeWhile (\<lambda>c. c \<noteq> 0) (fn @ replicate n (0::byte)) = fn"
proof -
  have "takeWhile (\<lambda>c. c \<noteq> 0) (fn @ replicate n (0::byte))
      = fn @ takeWhile (\<lambda>c. c \<noteq> 0) (replicate n (0::byte))"
    using assms(1) by (intro takeWhile_append2) auto
  also have "takeWhile (\<lambda>c. c \<noteq> 0) (replicate n (0::byte)) = []"
    using assms(2) by (cases n) simp_all
  finally show ?thesis by simp
qed

lemma put_dirent_name:
  assumes "length dir = 4096" "slot < 128" "i < 128" "length fn \<le> 27" "0 \<notin> set fn"
  shows "dirent_name (put_dirent dir slot k fn) i = (if i = slot then fn else dirent_name dir i)"
proof (cases "i = slot")
  case True
  have "take 28 (drop (slot * 32 + 4) (put_bytes dir (slot * 32) (dirent_bytes k fn)))
      = take 28 (drop 4 (dirent_bytes k fn))"
    using assms by (intro take_drop_put_bytes_inside) simp_all
  then show ?thesis using True assms
    by (simp add: dirent_name_def put_dirent_def dirent_bytes_name takeWhile_name)
next
  case False
  then have "i * 32 + 4 + 28 \<le> slot * 32 \<or> slot * 32 + 32 \<le> i * 32 + 4" by arith
  then have "take 28 (drop (i * 32 + 4) (put_bytes dir (slot * 32) (dirent_bytes k fn)))
      = take 28 (drop (i * 32 + 4) dir)"
    using assms by (intro take_drop_put_bytes_outside) simp_all
  then show ?thesis using False by (simp add: dirent_name_def put_dirent_def)
qed

lemma put_dirent_used:
  assumes "length dir = 4096" "slot < 128" "i < 128" "length fn \<le> 27" "0 \<notin> set fn"
  shows "dirent_used (put_dirent dir slot k fn) i = (if i = slot then fn \<noteq> [] else dirent_used dir i)"
proof (cases "i = slot")
  case True
  have "put_bytes dir (slot * 32) (dirent_bytes k fn) ! (slot * 32 + 4) = dirent_bytes k fn ! 4"
    using assms by (simp add: nth_put_bytes)
  also have "\<dots> = (fn @ replicate (28 - length fn) 0) ! 0"
    using assms(4) by (simp add: dirent_bytes_def nth_append)
  also have "\<dots> \<noteq> 0 \<longleftrightarrow> fn \<noteq> []"
    using assms(4,5) by (cases fn) auto
  finally show ?thesis using True by (simp add: dirent_used_def put_dirent_def)
next
  case False
  then have c: "\<not> (slot * 32 \<le> i * 32 + 4 \<and> i * 32 + 4 < slot * 32 + length (dirent_bytes k fn))"
    unfolding length_dirent_bytes by arith
  have "put_bytes dir (slot * 32) (dirent_bytes k fn) ! (i * 32 + 4) = dir ! (i * 32 + 4)"
    using nth_put_bytes [of "slot * 32" "dirent_bytes k fn" dir "i * 32 + 4"] assms(1,2,3) c
    by (simp only: if_False) simp
  then show ?thesis using False by (simp add: dirent_used_def put_dirent_def)
qed

lemma put_dirent_inode:
  assumes "length dir = 4096" "slot < 128" "i < 128"
  shows "dirent_inode (put_dirent dir slot k fn) i = (if i = slot then of_nat k else dirent_inode dir i)"
proof (cases "i = slot")
  case True
  have "rd32 (put_bytes dir (slot * 32) (dirent_bytes k fn)) (slot * 32 + 0) = rd32 (dirent_bytes k fn) 0"
    using assms by (intro rd32_put_bytes_inside) simp_all
  also have "\<dots> = of_nat k" using rd32_le32_0 by (simp add: dirent_bytes_def)
  finally show ?thesis using True by (simp add: dirent_inode_def put_dirent_def)
next
  case False
  then have "i * 32 + 4 \<le> slot * 32 \<or> slot * 32 + 32 \<le> i * 32" by arith
  then have "rd32 (put_bytes dir (slot * 32) (dirent_bytes k fn)) (i * 32) = rd32 dir (i * 32)"
    using assms by (intro rd32_put_bytes_outside) simp_all
  then show ?thesis using False by (simp add: dirent_inode_def put_dirent_def)
qed

text \<open>The result of the slot search, in terms of the entries.\<close>

lemma find_free_dirent_cases:
  assumes "length dir = 4096" "length fn \<le> 27" "0 \<notin> set fn"
  shows "find_free_dirent dir fn =
           (if \<exists>i<128. dirent_used dir i \<and> dirent_name dir i = fn then Inl AlreadyExists
            else case List.find (\<lambda>i. \<not> dirent_used dir i) [0..<128] of
                   None \<Rightarrow> Inl DirectoryFull | Some s \<Rightarrow> Inr s)"
  using scan_dirents_result [OF assms, of "[0..<128]" None]
  by (auto simp add: find_free_dirent_def split: option.splits)

lemma find_free_dirent_Inr:
  assumes "length dir = 4096" "length fn \<le> 27" "0 \<notin> set fn" "find_free_dirent dir fn = Inr slot"
  shows "slot < 128" "\<not> dirent_used dir slot"
    "\<forall>i<128. dirent_used dir i \<longrightarrow> dirent_name dir i \<noteq> fn"
proof -
  from assms(4) find_free_dirent_cases [OF assms(1,2,3)]
  have nm: "\<not> (\<exists>i<128. dirent_used dir i \<and> dirent_name dir i = fn)"
    and f: "List.find (\<lambda>i. \<not> dirent_used dir i) [0..<128] = Some slot"
    by (auto split: if_splits option.splits)
  from f show "slot < 128" "\<not> dirent_used dir slot"
    by (auto simp add: find_Some_iff)
  from nm show "\<forall>i<128. dirent_used dir i \<longrightarrow> dirent_name dir i \<noteq> fn" by blast
qed

lemma find_free_dirent_succeeds:
  assumes "length dir = 4096" "length fn \<le> 27" "0 \<notin> set fn"
    "\<exists>i<128. \<not> dirent_used dir i" "\<not> (\<exists>i<128. dirent_used dir i \<and> dirent_name dir i = fn)"
  shows "\<exists>slot. find_free_dirent dir fn = Inr slot"
proof -
  from assms(4) have "List.find (\<lambda>i. \<not> dirent_used dir i) [0..<128] \<noteq> None"
    by (auto simp add: find_None_iff)
  with find_free_dirent_cases [OF assms(1,2,3)] assms(5) show ?thesis by auto
qed

lemma dirent_used_name_nonempty:
  assumes "length dir = 4096" "i < 128" "dirent_used dir i"
  shows "dirent_name dir i \<noteq> []"
proof -
  let ?xs = "take 28 (drop (i * 32 + 4) dir)"
  have ne: "?xs \<noteq> []" using assms(1,2) by simp
  have "hd ?xs = hd (drop (i * 32 + 4) dir)" by (rule hd_take) simp
  also have "\<dots> = dir ! (i * 32 + 4)" using assms(1,2) by (intro hd_drop_conv_nth) simp
  finally have "hd ?xs \<noteq> 0" using assms(3) by (simp add: dirent_used_def)
  with ne show ?thesis unfolding dirent_name_def by (simp add: takeWhile_eq_Nil_iff)
qed

lemma inode_fields_table:
  assumes "length b0 = 4096" "i < 64"
  shows "inode_size (b0 @ b1) i = (if i < 32 then inode_size b0 i else inode_size b1 (i - 32))"
    and "j < 8 \<Longrightarrow> inode_direct (b0 @ b1) i j
          = (if i < 32 then inode_direct b0 i j else inode_direct b1 (i - 32) j)"
proof -
  show "inode_size (b0 @ b1) i = (if i < 32 then inode_size b0 i else inode_size b1 (i - 32))"
  proof (cases "i < 32")
    case True
    then have "i * 128 + 4 + 4 \<le> length b0" using assms by simp
    then show ?thesis using True by (simp add: inode_size_def rd32_append_left)
  next
    case False
    then have "i * 128 + 4 = length b0 + ((i - 32) * 128 + 4)" using assms by simp
    then show ?thesis using False rd32_append_right [of b0 b1 "(i - 32) * 128 + 4"]
      by (simp add: inode_size_def add.assoc)
  qed
  show "inode_direct (b0 @ b1) i j
          = (if i < 32 then inode_direct b0 i j else inode_direct b1 (i - 32) j)" if j: "j < 8"
  proof (cases "i < 32")
    case True
    then have "i * 128 + 8 + j * 4 + 4 \<le> length b0" using assms j by simp
    then show ?thesis using True by (simp add: inode_direct_def rd32_append_left)
  next
    case False
    then have "i * 128 + 8 + j * 4 = length b0 + ((i - 32) * 128 + 8 + j * 4)" using assms by simp
    then show ?thesis using False rd32_append_right [of b0 b1 "(i - 32) * 128 + 8 + j * 4"]
      by (simp add: inode_direct_def add.assoc)
  qed
qed

lemma prepare_blocks_new_inode:
  assumes pb: "prepare_blocks t bm b0 b1 dir k slot fn = (bm', b0', b1', dir')"
    and lens: "length b0 = 4096" "length b1 = 4096" "length b0' = 4096"
    and k: "1 \<le> k" "k < 64"
  shows "inode_type (b0' @ b1') k = 1" "inode_size (b0' @ b1') k = 0"
    "j < 8 \<Longrightarrow> inode_direct (b0' @ b1') k j = 0"
proof -
  define c where "c = (if 32 \<le> k then b0 else init_inode b0 k t)"
  have lc: "length c = 4096" using lens k by (simp add: c_def length_init_inode)
  have b0': "b0' = (case get_highest_dirent dir' of None \<Rightarrow> c
                    | Some h \<Rightarrow> put_bytes c 4 (le32 (of_nat ((h + 1) * 32))))"
    unfolding c_def by (rule prepare_blocks_parts(4) [OF pb])
  have b1': "b1' = (if 32 \<le> k then init_inode b1 (k - 32) t else b1)"
    by (rule prepare_blocks_parts(3) [OF pb])
  show "inode_type (b0' @ b1') k = 1"
  proof (cases "k < 32")
    case True
    then show ?thesis
      using prepare_blocks_types(1) [OF pb lens(1,2) k, of k] lens(3) k
      by (simp add: inode_type_table)
  next
    case False
    then have "k - 32 < 32" "k - 32 + 32 = k" using k by simp_all
    then show ?thesis
      using prepare_blocks_types(2) [OF pb lens(1,2) k, of "k - 32"] lens(3) k False
      by (simp add: inode_type_table)
  qed
  have sz: "inode_size b0' k = 0" "\<And>j. j < 8 \<Longrightarrow> inode_direct b0' k j = 0" if "k < 32"
  proof -
    have c: "c = init_inode b0 k t" using that by (simp add: c_def)
    have "inode_size b0' k = inode_size c k"
      using root_size_fields(1) [OF lc k(1) that] by (cases "get_highest_dirent dir'") (simp_all add: b0')
    then show "inode_size b0' k = 0" using init_inode_fields(1) [OF lens(1) that] by (simp add: c)
    fix j :: nat assume j: "j < 8"
    have "inode_direct b0' k j = inode_direct c k j"
      using root_size_fields(2) [OF lc k(1) that j]
      by (cases "get_highest_dirent dir'") (simp_all add: b0')
    then show "inode_direct b0' k j = 0" using init_inode_fields(2) [OF lens(1) that j] by (simp add: c)
  qed
  have sz1: "inode_size b1' (k - 32) = 0" "\<And>j. j < 8 \<Longrightarrow> inode_direct b1' (k - 32) j = 0"
    if "\<not> k < 32"
  proof -
    have i: "k - 32 < 32" using that k by simp
    have e: "b1' = init_inode b1 (k - 32) t" using that by (simp add: b1')
    show "inode_size b1' (k - 32) = 0" unfolding e using lens(2) i by (rule init_inode_fields(1))
    fix j :: nat assume "j < 8"
    with lens(2) i show "inode_direct b1' (k - 32) j = 0" unfolding e by (rule init_inode_fields(2))
  qed
  show "inode_size (b0' @ b1') k = 0"
    using sz(1) sz1(1) lens(3) k by (simp add: inode_fields_table(1))
  show "inode_direct (b0' @ b1') k j = 0" if "j < 8"
    using sz(2) sz1(2) lens(3) k that by (simp add: inode_fields_table(2))
qed

lemma formattedE:
  assumes "formatted sb d"
  obtains bm b0 b1 dir where
    "journal_fits sb d" "journal_log sb d []"
    "read_block d (inode_bitmap sb) = Inr bm" "read_block d (inode_start sb) = Inr b0"
    "read_block d (inode_start sb + 1) = Inr b1" "read_block d (rd32 b0 8) = Inr dir"
    "metadata_layout sb (rd32 b0 8)"
  using assms unfolding formatted_def by blast

lemma create_install_blocks:
  assumes fm: "formatted sb d"
    and rd: "read_block d (inode_bitmap sb) = Inr bm" "read_block d (inode_start sb) = Inr b0"
      "read_block d (inode_start sb + 1) = Inr b1" "read_block d (rd32 b0 8) = Inr dir"
    and fn: "length fn \<le> 27"
    and fi: "find_free_inode bm = Some k" and fd: "find_free_dirent dir fn = Inr slot"
    and pb: "prepare_blocks t bm b0 b1 dir k slot fn = (bm', b0', b1', dir')"
  shows "\<exists>d1 d2. journal_create sb t d fn = Inr (d1, k)
      \<and> journal_install sb d1 = Some (Inr (d2, 1))
      \<and> read_block d2 (inode_bitmap sb) = Inr bm'
      \<and> read_block d2 (inode_start sb) = Inr b0'
      \<and> read_block d2 (inode_start sb + 1) = Inr b1'
      \<and> read_block d2 (rd32 b0' 8) = Inr dir'"
proof -
  from fm rd(2) have fits: "journal_fits sb d" and log: "journal_log sb d []"
    and lay: "metadata_layout sb (rd32 b0 8)"
    by (auto elim!: formattedE)
  let ?root = "rd32 b0 8"
  let ?txn = "transaction_records sb (32 \<le> k) ?root bm' b0' b1' dir'"
  from create_step [OF fits log _ fn rd(1) fi rd(2,3,4) fd pb]
  obtain d1 where c: "journal_create sb t d fn = Inr (d1, k)"
    and h: "journal_holds sb d1 ([] @ ?txn)" and same: "same_outside_journal sb d d1"
    by auto
  have lens0: "length bm = 4096" "length b0 = 4096" "length b1 = 4096" "length dir = 4096"
    using rd by (auto dest: read_block_length)
  note kk = find_free_inode_Some [OF fi]
  note lens = prepare_blocks_lengths [OF pb lens0 kk(2) find_free_dirent_bound [OF fd]]
  note lb = layout_blocks [OF lay]
  have rd1: "read_block d1 (inode_bitmap sb) = Inr bm" "read_block d1 (inode_start sb) = Inr b0"
    "read_block d1 (inode_start sb + 1) = Inr b1" "read_block d1 ?root = Inr dir"
    using same_outside_read_block [OF same lb(5) lb(1)] same_outside_read_block [OF same lb(6) lb(2)]
      same_outside_read_block [OF same lb(7) lb(3)] same_outside_read_block [OF same lb(8) lb(4)]
      rd by simp_all
  note w = read_block_within [OF rd1(1)] read_block_within [OF rd1(2)]
    read_block_within [OF rd1(3)] read_block_within [OF rd1(4)]
  define dW where "dW = write_block
               (if 32 \<le> k
                then write_block (write_block (write_block d1 (inode_bitmap sb) bm') (inode_start sb) b0')
                       (inode_start sb + 1) b1'
                else write_block (write_block d1 (inode_bitmap sb) bm') (inode_start sb) b0')
               ?root dir'"
  note ar = apply_txn_reads [OF lay lens w, of k, folded dW_def]
  have rp: "replay d1 [] 0 ([] @ ?txn) = (dW, [], 1)"
    using replay_txn_of [OF lens, of d1 0 sb k ?root "[]"] by (simp add: dW_def)
  have ne: "[] @ ?txn \<noteq> []" by (simp add: transaction_records_def)
  have inst: "journal_install sb d1 = Some (Inr (clear_journal sb dW, 1))"
    using install_holds_clear [OF h ne] rp by simp
  have fitsW: "journal_fits sb dW"
    using same_outside_fits [OF same fits] ar(1) by (simp add: journal_fits_def)
  have wW: "unat (inode_bitmap sb * 4096) + 4096 \<le> fsize dW"
      "unat (inode_start sb * 4096) + 4096 \<le> fsize dW"
      "unat ((inode_start sb + 1) * 4096) + 4096 \<le> fsize dW"
      "unat (?root * 4096) + 4096 \<le> fsize dW"
    using w ar(1) by simp_all
  have b1e: "read_block dW (inode_start sb + 1) = Inr b1'"
    using ar(4) rd1(3) prepare_blocks_parts(3) [OF pb] by auto
  have root': "rd32 b0' 8 = ?root"
    using pb lens0(2) kk(1,2) by (rule prepare_blocks_root)
  have r2: "read_block (clear_journal sb dW) (inode_bitmap sb) = Inr bm'"
      "read_block (clear_journal sb dW) (inode_start sb) = Inr b0'"
      "read_block (clear_journal sb dW) (inode_start sb + 1) = Inr b1'"
      "read_block (clear_journal sb dW) (rd32 b0' 8) = Inr dir'"
    using read_block_clear_journal_outside [OF fitsW lb(1) lb(5) wW(1)]
        read_block_clear_journal_outside [OF fitsW lb(2) lb(6) wW(2)]
        read_block_clear_journal_outside [OF fitsW lb(3) lb(7) wW(3)]
        read_block_clear_journal_outside [OF fitsW lb(4) lb(8) wW(4)]
        ar(2,3,5) b1e root' by simp_all
  show ?thesis using c inst r2 by blast
qed

lemma create_install_named:
  assumes fm: "formatted sb d"
    and rd: "read_block d (inode_bitmap sb) = Inr bm" "read_block d (inode_start sb) = Inr b0"
      "read_block d (rd32 b0 8) = Inr dir"
    and fi: "find_free_inode bm \<noteq> None"
    and slot: "\<exists>i<128. \<not> dirent_used dir i"
    and nm: "\<not> (\<exists>i<128. dirent_used dir i \<and> dirent_name dir i = fn)"
    and fn: "length fn \<le> 27" "0 \<notin> set fn"
  shows "\<exists>d1 k d2 bm' b0' b1' dir' slot.
      journal_create sb t d fn = Inr (d1, k) \<and> journal_install sb d1 = Some (Inr (d2, 1))
      \<and> 1 \<le> k \<and> k < 64 \<and> bit_clear bm k
      \<and> read_block d2 (inode_bitmap sb) = Inr bm' \<and> \<not> bit_clear bm' k
      \<and> read_block d2 (inode_start sb) = Inr b0' \<and> read_block d2 (inode_start sb + 1) = Inr b1'
      \<and> read_block d2 (rd32 b0' 8) = Inr dir'
      \<and> inode_type (b0' @ b1') k = INODE_FILE \<and> inode_size (b0' @ b1') k = 0
      \<and> (\<forall>j<8. inode_direct (b0' @ b1') k j = 0)
      \<and> slot < 128 \<and> \<not> dirent_used dir slot
      \<and> dirent_inode dir' slot = of_nat k
      \<and> (\<forall>i<128. dirent_used dir' i = (if i = slot then fn \<noteq> [] else dirent_used dir i))
      \<and> (\<forall>i<128. dirent_name dir' i = (if i = slot then fn else dirent_name dir i))
      \<and> (\<forall>i<128. i \<noteq> slot \<longrightarrow> dirent_inode dir' i = dirent_inode dir i)"
proof -
  from fm rd(1,2) obtain b1 where rb1: "read_block d (inode_start sb + 1) = Inr b1"
    by (auto elim!: formattedE)
  from fi obtain k where k: "find_free_inode bm = Some k" by auto
  have lens0: "length bm = 4096" "length b0 = 4096" "length b1 = 4096" "length dir = 4096"
    using rd rb1 by (auto dest: read_block_length)
  from find_free_dirent_succeeds [OF lens0(4) fn slot nm]
  obtain s where s: "find_free_dirent dir fn = Inr s" by blast
  note sl = find_free_dirent_Inr [OF lens0(4) fn s]
  obtain bm' b0' b1' dir' where pb: "prepare_blocks t bm b0 b1 dir k s fn = (bm', b0', b1', dir')"
    by (metis prod_cases4)
  note kk = find_free_inode_Some [OF k]
  note lens = prepare_blocks_lengths [OF pb lens0 kk(2) sl(1)]
  from create_install_blocks [OF fm rd(1,2) rb1 rd(3) fn(1) k s pb]
  obtain d1 d2 where c: "journal_create sb t d fn = Inr (d1, k)"
    "journal_install sb d1 = Some (Inr (d2, 1))"
    "read_block d2 (inode_bitmap sb) = Inr bm'" "read_block d2 (inode_start sb) = Inr b0'"
    "read_block d2 (inode_start sb + 1) = Inr b1'" "read_block d2 (rd32 b0' 8) = Inr dir'"
    by blast
  note ni = prepare_blocks_new_inode [OF pb lens0(2,3) lens(2) kk(1,2)]
  have bit: "\<not> bit_clear bm' k"
    unfolding prepare_blocks_parts(1) [OF pb] using kk(2) lens0(1)
    by (simp add: bit_clear_set_bit_at)
  have dir': "dir' = put_dirent dir s k fn" by (rule prepare_blocks_parts(2) [OF pb])
  have du: "\<forall>i<128. dirent_used dir' i = (if i = s then fn \<noteq> [] else dirent_used dir i)"
    unfolding dir' using put_dirent_used [OF lens0(4) sl(1) _ fn] by blast
  have dn: "\<forall>i<128. dirent_name dir' i = (if i = s then fn else dirent_name dir i)"
    unfolding dir' using put_dirent_name [OF lens0(4) sl(1) _ fn] by blast
  have di: "\<forall>i<128. dirent_inode dir' i = (if i = s then of_nat k else dirent_inode dir i)"
    unfolding dir' using put_dirent_inode [OF lens0(4) sl(1)] by blast
  have di1: "dirent_inode dir' s = of_nat k"
    and di2: "\<forall>i<128. i \<noteq> s \<longrightarrow> dirent_inode dir' i = dirent_inode dir i"
    using di sl(1) by simp_all
  have dr: "\<forall>j<8. inode_direct (b0' @ b1') k j = 0" using ni(3) by blast
  show ?thesis
    using c kk ni(1,2) dr bit sl(1,2) di1 du dn di2 by blast
qed

lemma example_free_slot: "\<exists>i<128. \<not> dirent_used example_dir_block i"
  using example_dir_block_used(3) [of 2] by (intro exI [of _ 2]) simp

lemma example_sb_fields:
  "inode_bitmap example_sb = 17" "inode_start example_sb = 19" "inode_start example_sb + 1 = 20"
  by (simp_all add: example_sb_def)

lemma highest_loop_cong:
  assumes "\<forall>i \<in> set is. dirent_used dir1 i = dirent_used dir2 i"
  shows "highest_loop dir1 is h = highest_loop dir2 is h"
  using assms by (induction "is" arbitrary: h) (simp_all add: dirent_used_def)

lemma get_highest_dirent_cong:
  assumes "\<forall>i<128. dirent_used dir1 i = dirent_used dir2 i"
  shows "get_highest_dirent dir1 = get_highest_dirent dir2"
  unfolding get_highest_dirent_def using assms by (intro highest_loop_cong) simp

lemma find_free_dirent_cong:
  assumes len: "length dir1 = 4096" "length dir2 = 4096"
    and fn: "length fn \<le> 27" "0 \<notin> set fn"
    and used: "\<forall>i<128. dirent_used dir1 i = dirent_used dir2 i"
    and names: "\<forall>i<128. dirent_used dir2 i \<longrightarrow> dirent_name dir1 i = dirent_name dir2 i"
  shows "find_free_dirent dir1 fn = find_free_dirent dir2 fn"
proof -
  have ex: "(\<exists>i<128. dirent_used dir1 i \<and> dirent_name dir1 i = fn)
              = (\<exists>i<128. dirent_used dir2 i \<and> dirent_name dir2 i = fn)"
    using used names by auto
  have fd: "List.find (\<lambda>i. \<not> dirent_used dir1 i) [0..<128]
              = List.find (\<lambda>i. \<not> dirent_used dir2 i) [0..<128]"
    using used by (intro find_cong) simp_all
  show ?thesis
    unfolding find_free_dirent_cases [OF len(1) fn] find_free_dirent_cases [OF len(2) fn] ex fd ..
qed

lemma no_empty_name:
  assumes "length dir = 4096"
  shows "\<not> (\<exists>i<128. dirent_used dir i \<and> dirent_name dir i = [])"
  using dirent_used_name_nonempty [OF assms] by blast

lemma create_install_empty:
  assumes fm: "formatted sb d"
    and rd: "read_block d (inode_bitmap sb) = Inr bm" "read_block d (inode_start sb) = Inr b0"
      "read_block d (rd32 b0 8) = Inr dir"
    and fi: "find_free_inode bm = Some k"
    and slot: "\<exists>i<128. \<not> dirent_used dir i"
  shows "\<exists>d1 d2 bm' b0' b1' dir' slot.
      journal_create sb t d [] = Inr (d1, k)
      \<and> journal_holds sb d1 (transaction_records sb (32 \<le> k) (rd32 b0 8) bm' b0' b1' dir')
      \<and> journal_install sb d1 = Some (Inr (d2, 1))
      \<and> bit_clear bm k
      \<and> read_block d2 (inode_bitmap sb) = Inr bm' \<and> \<not> bit_clear bm' k
      \<and> read_block d2 (inode_start sb) = Inr b0' \<and> read_block d2 (inode_start sb + 1) = Inr b1'
      \<and> read_block d2 (rd32 b0' 8) = Inr dir'
      \<and> inode_type (b0' @ b1') k = INODE_FILE
      \<and> find_free_dirent dir [] = Inr slot \<and> slot < 128
      \<and> dirent_inode dir' slot = of_nat k
      \<and> dir' ! (slot * 32 + 4) = 0
      \<and> length dir = 4096 \<and> length dir' = 4096
      \<and> (\<forall>i<128. dirent_used dir' i = dirent_used dir i)
      \<and> (\<forall>i<128. dirent_name dir' i = (if i = slot then [] else dirent_name dir i))
      \<and> (\<forall>i<128. i \<noteq> slot \<longrightarrow> dirent_inode dir' i = dirent_inode dir i)"
proof -
  from fm rd(1,2) obtain b1 where rb1: "read_block d (inode_start sb + 1) = Inr b1"
    by (auto elim!: formattedE)
  from fm have jf: "journal_fits sb d" "journal_log sb d []" by (auto elim!: formattedE)
  have lens0: "length bm = 4096" "length b0 = 4096" "length b1 = 4096" "length dir = 4096"
    using rd rb1 by (auto dest: read_block_length)
  have fn: "length ([] :: byte list) \<le> 27" "0 \<notin> set ([] :: byte list)" by simp_all
  from find_free_dirent_succeeds [OF lens0(4) fn slot no_empty_name [OF lens0(4)]]
  obtain s where s: "find_free_dirent dir [] = Inr s" by blast
  note sl = find_free_dirent_Inr [OF lens0(4) fn s]
  obtain bm' b0' b1' dir' where pb: "prepare_blocks t bm b0 b1 dir k s [] = (bm', b0', b1', dir')"
    by (metis prod_cases4)
  note kk = find_free_inode_Some [OF fi]
  note lens = prepare_blocks_lengths [OF pb lens0 kk(2) sl(1)]
  from create_install_blocks [OF fm rd(1,2) rb1 rd(3) fn(1) fi s pb]
  obtain d1 d2 where c: "journal_create sb t d [] = Inr (d1, k)"
    "journal_install sb d1 = Some (Inr (d2, 1))"
    "read_block d2 (inode_bitmap sb) = Inr bm'" "read_block d2 (inode_start sb) = Inr b0'"
    "read_block d2 (inode_start sb + 1) = Inr b1'" "read_block d2 (rd32 b0' 8) = Inr dir'"
    by blast
  have "8 + length (enc_recs []) + 16420 \<le> 65536" by simp
  from create_step [OF jf this fn(1) rd(1) fi rd(2) rb1 rd(3) s pb] c(1)
  have jh: "journal_holds sb d1 (transaction_records sb (32 \<le> k) (rd32 b0 8) bm' b0' b1' dir')"
    by auto
  note ni = prepare_blocks_new_inode [OF pb lens0(2,3) lens(2) kk(1,2)]
  have bit: "\<not> bit_clear bm' k"
    unfolding prepare_blocks_parts(1) [OF pb] using kk(2) lens0(1)
    by (simp add: bit_clear_set_bit_at)
  have dir': "dir' = put_dirent dir s k []" by (rule prepare_blocks_parts(2) [OF pb])
  have du: "\<forall>i<128. dirent_used dir' i = dirent_used dir i"
    unfolding dir' using put_dirent_used [OF lens0(4) sl(1) _ fn] sl(2) by auto
  have dn: "\<forall>i<128. dirent_name dir' i = (if i = s then [] else dirent_name dir i)"
    unfolding dir' using put_dirent_name [OF lens0(4) sl(1) _ fn] by auto
  have di: "\<forall>i<128. dirent_inode dir' i = (if i = s then of_nat k else dirent_inode dir i)"
    unfolding dir' using put_dirent_inode [OF lens0(4) sl(1)] by auto
  have z: "dir' ! (s * 32 + 4) = 0"
    using du sl(1,2) by (auto simp add: dirent_used_def)
  have len': "length dir' = 4096" unfolding dir' using lens0(4) sl(1)
    by (simp add: length_put_dirent)
  show ?thesis
    using c jh kk(3) bit ni(1) s sl(1) di z du dn lens0(4) len'
    by (intro exI [of _ d1] exI [of _ d2] exI [of _ bm'] exI [of _ b0'] exI [of _ b1']
        exI [of _ dir'] exI [of _ s]) simp
qed

lemma wrapped_image_same: "same_outside_journal example_sb fresh_image wrapped_image"
  unfolding wrapped_image_def
  by (rule write_journal_frame [OF journal_fits_fresh_image]) (simp_all add: journal_header_bytes_def le32_def)

lemma wrapped_image_header:
  "read_journal_bytes example_sb wrapped_image 0 8 = Inr (journal_header_bytes JOURNAL_MAGIC 0xFFFFF000)"
  unfolding wrapped_image_def by (rule read_header_after_reset)

lemma contents_fresh_image_0: "contents fresh_image 0 = 0"
  by (simp add: fresh_image_def write_block_def contents_file_write zero_image_def)

lemma contents_wrapped_image_0: "contents wrapped_image 0 = 0"
  using wrapped_image_same contents_fresh_image_0
  by (simp add: same_outside_journal_def example_sb_def)

lemma write_transaction_wrapped:
  assumes "length bm = 4096" "length b0 = 4096" "length dir = 4096"
  shows "contents (write_transaction example_sb d 0xFFFFF000 False root bm b0 b1 dir) 0 = 1"
  using assms
  by (simp add: write_transaction_def Let_def write_journal_bytes_def contents_file_write
      example_sb_def data_record_bytes_def le16_def)

lemma create_on_wrapped_image:
  "\<exists>d'. journal_create example_sb t wrapped_image a_txt = Inr (d', 1) \<and> contents d' 0 = 1"
proof -
  note r = same_outside_example_reads [OF wrapped_image_same]
  obtain bm' b0' b1' dir' where pb:
    "prepare_blocks t example_bitmap example_inode_block0 (replicate 4096 0) example_dir_block 1 2 a_txt
       = (bm', b0', b1', dir')"
    by (metis prod_cases4)
  have lens: "length bm' = 4096" "length b0' = 4096" "length b1' = 4096" "length dir' = 4096"
    by (rule prepare_blocks_lengths [OF pb]; simp add: length_example_blocks)+
  have chk: "\<not> (if rd32 (journal_header_bytes JOURNAL_MAGIC 0xFFFFF000) 0 \<noteq> JOURNAL_MAGIC then 8
        else rd32 (journal_header_bytes JOURNAL_MAGIC 0xFFFFF000) 4) + 16420 > (65536 :: u32)"
    by simp
  have rb: "read_block wrapped_image (inode_bitmap example_sb) = Inr example_bitmap"
    "read_block wrapped_image (inode_start example_sb) = Inr example_inode_block0"
    "read_block wrapped_image (inode_start example_sb + 1) = Inr (replicate 4096 0)"
    "read_block wrapped_image (rd32 example_inode_block0 8) = Inr example_dir_block"
    by (simp_all add: example_sb_def r root_pointer_example)
  have ln: "length a_txt \<le> 27" by (simp add: a_txt_def)
  have "journal_create example_sb t wrapped_image a_txt =
      Inr (write_transaction example_sb wrapped_image
             (if rd32 (journal_header_bytes JOURNAL_MAGIC 0xFFFFF000) 0 \<noteq> JOURNAL_MAGIC then 8
              else rd32 (journal_header_bytes JOURNAL_MAGIC 0xFFFFF000) 4)
             (32 \<le> (1::nat)) (rd32 example_inode_block0 8) bm' b0' b1' dir', 1)"
    by (rule journal_create_success [OF ln wrapped_image_header chk rb(1) find_free_inode_example
          rb(2,3,4) find_free_dirent_example pb])
  then have "journal_create example_sb t wrapped_image a_txt =
      Inr (write_transaction example_sb wrapped_image 0xFFFFF000 False 21 bm' b0' b1' dir', 1)"
    by (simp add: root_pointer_example)
  with write_transaction_wrapped [OF lens(1,2,4)] show ?thesis by blast
qed

lemma scan_stops_step:
  assumes st: "scan_stops rest off used" and buf: "buf = pre @ rest"
    and len: "length buf = unat used" and off: "unat off = length pre"
  shows "scan_records buf used off pend n d = Some (Inr (d, pend, n))"
proof (cases "rest = []")
  case True
  with buf len off have "unat off = unat used" by simp
  then have "\<not> off < used" by (simp add: word_less_nat_alt)
  then show ?thesis by (subst scan_records.simps) simp
next
  case False
  with st have l4: "4 \<le> length rest"
    and c: "rd16 rest 2 = 0 \<or> off + ucast (rd16 rest 2) > used
       \<or> (rd16 rest 0 \<noteq> REC_DATA \<and> rd16 rest 0 \<noteq> REC_COMMIT)"
    by (simp_all add: scan_stops_def)
  have lt: "off < used" using buf len off l4 by (simp add: word_less_nat_alt)
  have lb: "\<not> length buf < unat off + 4" using buf off l4 by simp
  have f: "rd16 buf (unat off + 2) = rd16 rest 2" "rd16 buf (unat off) = rd16 rest 0"
    using rd16_append_right [of pre rest 2] rd16_append_right [of pre rest 0]
    by (simp_all add: buf off)
  have f2: "rd16 buf (Suc (Suc (unat off))) = rd16 rest 2" using f(1) by simp
  show ?thesis
    apply (subst scan_records.simps)
    using c apply (auto simp add: lt lb f f2)
    done
qed

lemma scan_records_enc_rest:
  assumes "list_all wf_rec rs" "buf = pre @ enc_recs rs @ rest" "length buf = unat used"
    "unat off = length pre"
    "scan_stops rest (of_nat (length pre + length (enc_recs rs))) used"
  shows "scan_records buf used off pend n d = Some (Inr (replay d pend n rs))"
  using assms
proof (induction rs arbitrary: pre off pend n d)
  case Nil
  from Nil.prems(4) have "of_nat (length pre) = off" by (metis of_nat_unat ucast_id)
  with Nil.prems(5) have "scan_stops rest off used" by simp
  from scan_stops_step [OF this _ Nil.prems(3,4)] Nil.prems(2) show ?case by simp
next
  case (Cons r rs)
  have st: "scan_stops rest (of_nat (length (pre @ enc_rec r) + length (enc_recs rs))) used"
    using Cons.prems(5) by (simp add: add.assoc)
  show ?case
  proof (cases r)
    case (DataRec b x)
    with Cons.prems have x: "length x = 4096" by simp
    have buf: "buf = pre @ data_record_bytes b x @ (enc_recs rs @ rest)"
      using Cons.prems DataRec by simp
    have len: "unat off + 4104 \<le> unat used"
      using Cons.prems(3,4) buf x by simp
    have lt: "off < used" using len by (simp add: word_less_nat_alt)
    have step: "unat (off + 4104) = unat off + 4104"
      using unat_off_plus [of off 4104 used] len by simp
    have nogt: "\<not> off + 4104 > used"
      using step len by (simp add: word_less_nat_alt)
    have f1: "rd16 buf (unat off) = 1" "rd16 buf (unat off + 2) = 4104"
      "rd32 buf (unat off + 4) = b" "take 4096 (drop (unat off + 8) buf) = x"
      using data_record_fields [where pre=pre and b=b and x=x and post="enc_recs rs @ rest"] x
      by (simp_all add: buf Cons.prems(4))
    have IH: "scan_records buf used (off + 4104) pend' n d = Some (Inr (replay d pend' n rs))" for pend'
      using Cons.IH [of "pre @ enc_rec r" "off + 4104" pend' n d, OF _ _ _ _ st]
        Cons.prems(1-4) step x DataRec
      by simp
    have lb: "\<not> length buf < unat off + 4" "\<not> length buf < unat off + 4104"
      using Cons.prems(3) len by simp_all
    have f2: "rd16 buf (Suc (Suc (unat off))) = 4104" using f1(2) by simp
    show ?thesis
      apply (subst scan_records.simps)
      apply (simp add: lt lb f1 f2 nogt IH DataRec)
      done
  next
    case CommitRec
    have buf: "buf = pre @ commit_record_bytes @ (enc_recs rs @ rest)"
      using Cons.prems CommitRec by simp
    have len: "unat off + 4 \<le> unat used"
      using Cons.prems(3,4) buf by simp
    have lt: "off < used" using len by (simp add: word_less_nat_alt)
    have step: "unat (off + 4) = unat off + 4"
      using unat_off_plus [of off 4 used] len by simp
    have nogt: "\<not> off + 4 > used"
      using step len by (simp add: word_less_nat_alt)
    have f1: "rd16 buf (unat off) = 2" "rd16 buf (unat off + 2) = 4"
      using commit_record_fields [where pre=pre and post="enc_recs rs @ rest"]
      by (simp_all add: buf Cons.prems(4))
    have IH: "scan_records buf used (off + 4) [] (Suc n) d' = Some (Inr (replay d' [] (Suc n) rs))" for d'
      using Cons.IH [of "pre @ enc_rec r" "off + 4" "[]" "Suc n" d', OF _ _ _ _ st]
        Cons.prems(1-4) step CommitRec
      by simp
    have lb: "\<not> length buf < unat off + 4"
      using Cons.prems(3) len by simp
    have f2: "rd16 buf (Suc (Suc (unat off))) = 4" using f1(2) by simp
    show ?thesis
      apply (subst scan_records.simps)
      apply (simp add: lt lb f1 f2 nogt IH CommitRec)
      done
  qed
qed

lemma unat_region_bytes:
  "8 + length (enc_recs rs) + length rest < 2 ^ 32 \<Longrightarrow>
   unat (region_bytes rs rest) = 8 + length (enc_recs rs) + length rest"
  unfolding region_bytes_def by (rule unat_of_nat_u32)

lemma journal_region_header:
  assumes "journal_region sb d rs rest"
  shows "read_journal_bytes sb d 0 8 = Inr (journal_header_bytes JOURNAL_MAGIC (region_bytes rs rest))"
proof -
  let ?u = "region_bytes rs rest"
  from assms have lt: "8 + length (enc_recs rs) + length rest < 2 ^ 32"
    and rd: "file_read d (unat (journal_block sb * 4096)) (unat ?u)
              = Inr (journal_header_bytes JOURNAL_MAGIC ?u @ enc_recs rs @ rest)"
    by (simp_all add: journal_region_def read_journal_bytes_def)
  have u: "unat ?u = 8 + length (enc_recs rs) + length rest" using lt by (rule unat_region_bytes)
  from file_read_take [OF rd, of 8] u show ?thesis
    by (simp add: read_journal_bytes_def)
qed

lemma install_region:
  assumes "journal_region sb d rs rest" "rs \<noteq> [] \<or> rest \<noteq> []"
  shows "journal_install sb d =
    Some (Inr (clear_journal sb (fst (replay d [] 0 rs)), snd (snd (replay d [] 0 rs))))"
proof -
  let ?u = "region_bytes rs rest"
  let ?h = "journal_header_bytes JOURNAL_MAGIC ?u"
  from assms(1) have wf: "list_all wf_rec rs"
    and lt: "8 + length (enc_recs rs) + length rest < 2 ^ 32"
    and rd: "read_journal_bytes sb d 0 ?u = Inr (?h @ enc_recs rs @ rest)"
    and st: "scan_stops rest (used_bytes rs) ?u"
    by (simp_all add: journal_region_def)
  have u: "unat ?u = 8 + length (enc_recs rs) + length rest" using lt by (rule unat_region_bytes)
  have hd: "read_journal_bytes sb d 0 8 = Inr ?h" using assms(1) by (rule journal_region_header)
  have "unat ?u > 8" using u enc_recs_nonempty [of rs] assms(2) by (cases "rs = []") simp_all
  then have nle: "\<not> ?u \<le> 8" by (simp add: word_le_nat_alt)
  have st': "scan_stops rest (of_nat (length ?h + length (enc_recs rs))) ?u"
    using st by (simp add: used_bytes_def)
  have sc: "scan_records (?h @ enc_recs rs @ rest) ?u 8 [] 0 d = Some (Inr (replay d [] 0 rs))"
    by (rule scan_records_enc_rest [OF wf _ _ _ st']) (simp_all add: u)
  show ?thesis
    using nle by (simp add: journal_install_def hd rd sc clear_journal_def split: prod.splits)
qed

lemma install_resets_header:
  assumes "journal_install sb d = Some (Inr (d', n))" "read_journal_bytes sb d 0 8 = Inr jh"
    "rd32 jh 0 = JOURNAL_MAGIC" "8 < rd32 jh 4"
  shows "read_journal_bytes sb d' 0 8 = Inr (journal_header_bytes JOURNAL_MAGIC 8)"
proof -
  from assms(4) have "\<not> rd32 jh 4 \<le> 8" by simp
  with assms(1,2,3) obtain d'' where
    "d' = write_journal_bytes sb d'' 0 (journal_header_bytes JOURNAL_MAGIC 8)"
    by (auto simp add: journal_install_def split: sum.splits option.splits prod.splits)
  then show ?thesis by (simp add: read_header_after_reset)
qed

lemma journal_holds_region: "journal_holds sb d rs \<longleftrightarrow> journal_region sb d rs []"
  by (simp add: journal_holds_def journal_region_def region_bytes_def used_bytes_def scan_stops_def)

lemma block_pos_dvd: "4096 dvd unat (b * 4096 :: u32)"
proof -
  have "unat (b * 4096) = unat b * 4096 mod 2 ^ 32" by (simp add: unat_word_ariths)
  moreover have "(4096::nat) dvd unat b * 4096" by simp
  moreover have "(4096::nat) dvd 2 ^ 32" by simp
  ultimately show ?thesis by (simp only: dvd_mod)
qed

lemma block_pos_disjoint:
  fixes b b' :: u32
  assumes "b' * 4096 \<noteq> b * 4096"
  shows "unat (b' * 4096) + 4096 \<le> unat (b * 4096) \<or> unat (b * 4096) + 4096 \<le> unat (b' * 4096)"
proof -
  from block_pos_dvd [of b] obtain i where i: "unat (b * 4096) = 4096 * i" by (auto elim: dvdE)
  from block_pos_dvd [of b'] obtain j where j: "unat (b' * 4096) = 4096 * j" by (auto elim: dvdE)
  from assms have "unat (b' * 4096) \<noteq> unat (b * 4096)" by (simp add: word_unat_eq_iff)
  then have "i \<noteq> j" using i j by auto
  then show ?thesis unfolding i j by arith
qed

lemma fsize_replay_mono: "fsize d \<le> fsize (fst (replay d pend n rs))"
proof (induction rs arbitrary: d pend n)
  case Nil
  show ?case by simp
next
  case (Cons r rs)
  show ?case
  proof (cases r)
    case (DataRec b x)
    then show ?thesis using Cons.IH by simp
  next
    case CommitRec
    have "fsize d \<le> fsize (apply_pending d pend)" by (rule fsize_apply_pending_mono)
    also have "\<dots> \<le> fsize (fst (replay (apply_pending d pend) [] (n + 1) rs))" by (rule Cons.IH)
    finally show ?thesis using CommitRec by simp
  qed
qed

lemma read_block_replay_other:
  assumes "read_block d b = Inr x" "list_all wf_rec rs"
    "list_all (\<lambda>(b', p). length p = 4096 \<and> b' * 4096 \<noteq> b * 4096) pend"
    "\<not> list_ex (\<lambda>r. writes_block r b) rs"
  shows "read_block (fst (replay d pend n rs)) b = Inr x"
  using assms
proof (induction rs arbitrary: d pend n)
  case Nil
  then show ?case by simp
next
  case (Cons r rs)
  show ?case
  proof (cases r)
    case (DataRec b' p)
    with Cons.prems have "length p = 4096" "b' * 4096 \<noteq> b * 4096" by simp_all
    with Cons.prems(3)
    have "list_all (\<lambda>(b', p). length p = 4096 \<and> b' * 4096 \<noteq> b * 4096)
            (if length pend < 16 then pend @ [(b', p)] else pend)" by simp
    from Cons.IH [OF Cons.prems(1) _ this] Cons.prems(2,4) DataRec show ?thesis by simp
  next
    case CommitRec
    have "list_all (\<lambda>(b', x). unat (b' * 4096) + length x \<le> unat (b * 4096)
                          \<or> unat (b * 4096) + 4096 \<le> unat (b' * 4096)) pend"
      unfolding list_all_iff
    proof (clarify)
      fix a ba
      assume "(a, ba) \<in> set pend" "\<not> unat (b * 4096) + 4096 \<le> unat (a * 4096)"
      with Cons.prems(3) have "length ba = 4096" "a * 4096 \<noteq> b * 4096"
        by (auto simp add: list_all_iff)
      with block_pos_disjoint [of a b] \<open>\<not> unat (b * 4096) + 4096 \<le> unat (a * 4096)\<close>
      show "unat (a * 4096) + length ba \<le> unat (b * 4096)" by simp
    qed
    from read_block_apply_pending_other [OF this read_block_within [OF Cons.prems(1)]] Cons.prems(1)
    have "read_block (apply_pending d pend) b = Inr x" by simp
    from Cons.IH [OF this, of "[]"] Cons.prems(2,4) CommitRec show ?thesis by simp
  qed
qed

lemma read_block_install_other:
  assumes rd: "read_block d b = Inr x" and wf: "list_all wf_rec rs"
    and nw: "\<not> list_ex (\<lambda>r. writes_block r b) rs" and nj: "b * 4096 \<noteq> journal_block sb * 4096"
  shows "read_block (clear_journal sb (fst (replay d [] 0 rs))) b = Inr x"
proof -
  have 1: "read_block (fst (replay d [] 0 rs)) b = Inr x"
    by (rule read_block_replay_other [OF rd wf _ nw]) simp
  from block_pos_disjoint [of "journal_block sb" b] nj
  have "unat (b * 4096) + 4096 \<le> unat (journal_block sb * 4096)
        \<or> unat (journal_block sb * 4096) + 8 \<le> unat (b * 4096)" by auto
  from read_block_clear_journal [OF this read_block_within [OF 1]] 1 show ?thesis by simp
qed

lemma journal_region_fsize:
  assumes "journal_region sb d rs rest"
  shows "unat (journal_block sb * 4096) + 8 \<le> fsize d"
  using journal_region_header [OF assms]
  by (simp add: read_journal_bytes_def file_read_Inr_iff)

lemma journal_region_image_with_region:
  assumes "list_all wf_rec rs" "8 + length (enc_recs rs) + length rest < 2 ^ 32"
    "scan_stops rest (used_bytes rs) (region_bytes rs rest)"
  shows "journal_region sb (image_with_region sb d rs rest) rs rest"
proof -
  let ?buf = "journal_header_bytes JOURNAL_MAGIC (region_bytes rs rest) @ enc_recs rs @ rest"
  have ne: "?buf \<noteq> []" by (simp add: journal_header_bytes_def le32_def)
  have len: "length ?buf = unat (region_bytes rs rest)" using assms(2) by (simp add: unat_region_bytes)
  from file_read_write_same [OF ne, of d "unat (journal_block sb * 4096)"] len
  show ?thesis
    using assms by (simp add: journal_region_def image_with_region_def read_journal_bytes_def
        write_journal_bytes_def)
qed

lemma read_block_image_with_region:
  assumes "unat (b * 4096) + 4096 \<le> unat (journal_block sb * 4096)
           \<or> unat (journal_block sb * 4096) + 8 + length (enc_recs rs) + length rest \<le> unat (b * 4096)"
    "unat (b * 4096) + 4096 \<le> fsize d"
  shows "read_block (image_with_region sb d rs rest) b = read_block d b"
  using assms
    file_read_write_other [of "unat (b * 4096)" 4096 "unat (journal_block sb * 4096)"
      "journal_header_bytes JOURNAL_MAGIC (region_bytes rs rest) @ enc_recs rs @ rest" d]
  by (simp add: read_block_def image_with_region_def write_journal_bytes_def add.assoc)

lemma truncated_record_stops:
  "length truncated_record = 108"
  "scan_stops truncated_record 8220 8328"
proof -
  show l: "length truncated_record = 108" by (simp add: truncated_record_def le16_def le32_def)
  have "rd16 truncated_record 2 = 4104"
    using rd16_le16_at [of "le16 REC_DATA" 4104 "le32 32 @ replicate 100 3"]
    by (simp add: truncated_record_def length_le16)
  then show "scan_stops truncated_record 8220 8328" using l by (simp add: scan_stops_def)
qed

lemma journal_install_cong:
  assumes "journal_block sb1 = journal_block sb"
  shows "journal_install sb1 d = journal_install sb d"
  unfolding journal_install_def read_journal_bytes_def write_journal_bytes_def assms ..

lemma main_install: "open_disk d = Inr sb \<Longrightarrow> main Install d = journal_install sb d"
  by (simp add: main_def)

lemma open_disk_read: "open_disk d = Inr sb \<Longrightarrow> \<exists>x. read_block d 0 = Inr x"
  by (auto simp add: open_disk_def split: sum.splits)

lemma open_disk_cong: "read_block d' 0 = read_block d 0 \<Longrightarrow> open_disk d' = open_disk d"
  by (simp add: open_disk_def)

lemma length_example_superblock [simp]: "length (example_superblock j) = 4096"
  by (simp add: example_superblock_def)

lemma example_superblock_fields:
  "rd32 (example_superblock j) 0 = SUPERBLOCK_MAGIC"
  "rd32 (example_superblock j) 8 = 85"
  "rd32 (example_superblock j) 16 = j"
  "rd32 (example_superblock j) 20 = 17"
  "rd32 (example_superblock j) 28 = 19"
proof -
  show "rd32 (example_superblock j) 0 = SUPERBLOCK_MAGIC"
    unfolding example_superblock_def by (rule rd32_le32_0)
  show "rd32 (example_superblock j) 8 = 85"
    using rd32_le32_at [of "le32 SUPERBLOCK_MAGIC @ le32 4096" 85]
    by (simp add: example_superblock_def)
  show "rd32 (example_superblock j) 16 = j"
    using rd32_le32_at [of "le32 SUPERBLOCK_MAGIC @ le32 4096 @ le32 85 @ le32 64" j]
    by (simp add: example_superblock_def)
  show "rd32 (example_superblock j) 20 = 17"
    using rd32_le32_at [of "le32 SUPERBLOCK_MAGIC @ le32 4096 @ le32 85 @ le32 64 @ le32 j" 17]
    by (simp add: example_superblock_def)
  show "rd32 (example_superblock j) 28 = 19"
    using rd32_le32_at [of "le32 SUPERBLOCK_MAGIC @ le32 4096 @ le32 85 @ le32 64 @ le32 j
        @ le32 17 @ le32 18" 19]
    by (simp add: example_superblock_def)
qed

lemma open_disk_example:
  "read_block d 0 = Inr (example_superblock j) \<Longrightarrow> open_disk d = Inr (example_sb\<lparr>journal_block := j\<rparr>)"
  by (simp add: open_disk_def example_superblock_fields example_sb_def)

lemma journal_holds_file_write_other:
  assumes "journal_holds sb d rs"
    "pos + length buf \<le> unat (journal_block sb * 4096)
     \<or> unat (journal_block sb * 4096) + 8 + length (enc_recs rs) \<le> pos"
  shows "journal_holds sb (file_write d pos buf) rs"
proof -
  let ?q = "unat (journal_block sb * 4096)"
  from assms(1) have lt: "8 + length (enc_recs rs) < 2 ^ 32"
    and rd: "file_read d ?q (unat (used_bytes rs))
              = Inr (journal_header_bytes JOURNAL_MAGIC (used_bytes rs) @ enc_recs rs)"
    by (simp_all add: journal_holds_def read_journal_bytes_def)
  have u: "unat (used_bytes rs) = 8 + length (enc_recs rs)" using lt by (rule unat_used_bytes)
  from rd have "?q + unat (used_bytes rs) \<le> fsize d" by (simp add: file_read_Inr_iff)
  moreover have "?q + unat (used_bytes rs) \<le> pos \<or> pos + length buf \<le> ?q"
    using assms(2) u by auto
  ultimately have "file_read (file_write d pos buf) ?q (unat (used_bytes rs))
      = file_read d ?q (unat (used_bytes rs))"
    by (intro file_read_write_other)
  with rd have "file_read (file_write d pos buf) ?q (unat (used_bytes rs))
      = Inr (journal_header_bytes JOURNAL_MAGIC (used_bytes rs) @ enc_recs rs)"
    by simp
  with assms(1) show ?thesis by (simp add: journal_holds_def read_journal_bytes_def)
qed

lemma install_same_superblock:
  assumes od: "open_disk d = Inr sb" and jh: "journal_holds sb d rs"
    and nw: "\<not> list_ex (\<lambda>r. writes_block r 0) rs" and nj: "journal_block sb * 4096 \<noteq> 0"
  shows "\<exists>d1. main Install d = Some (Inr (d1, length (filter (\<lambda>r. \<not> is_data r) rs)))
            \<and> open_disk d1 = Inr sb \<and> main Install d1 = Some (Inr (d1, 0))"
proof (cases "rs = []")
  case True
  with jh have "journal_install sb d = Some (Inr (d, 0))" by (simp add: install_holds_empty)
  then have "main Install d = Some (Inr (d, 0))" unfolding main_install [OF od] .
  with od True show ?thesis by auto
next
  case False
  define d1 where "d1 = clear_journal sb (fst (replay d [] 0 rs))"
  define k where "k = length (filter (\<lambda>r. \<not> is_data r) rs)"
  have "snd (snd (replay d [] 0 rs)) = k" unfolding k_def by (simp add: replay_count)
  with install_holds_clear [OF jh False]
  have i: "journal_install sb d = Some (Inr (d1, k))" unfolding d1_def by simp
  from jh have wf: "list_all wf_rec rs" by (simp add: journal_holds_def)
  from od obtain x where x: "read_block d 0 = Inr x" by (auto dest: open_disk_read)
  from nj have nj': "(0 :: u32) * 4096 \<noteq> journal_block sb * 4096" by simp
  have "read_block d1 0 = Inr x" unfolding d1_def by (rule read_block_install_other [OF x wf nw nj'])
  with x have "read_block d1 0 = read_block d 0" by simp
  then have "open_disk d1 = open_disk d" by (rule open_disk_cong)
  with od have od1: "open_disk d1 = Inr sb" by simp
  have i1: "journal_install sb d1 = Some (Inr (d1, 0))" using i by (rule install_twice)
  have "main Install d = Some (Inr (d1, k))" unfolding main_install [OF od] by (rule i)
  moreover have "main Install d1 = Some (Inr (d1, 0))" unfolding main_install [OF od1] by (rule i1)
  ultimately show ?thesis using od1 unfolding k_def by blast
qed

lemma fsize_superblock_image: "fsize superblock_image = 85 * 4096"
  by (simp add: superblock_image_def fsize_write_block zero_image_def)

lemma read_superblock_image:
  "read_block superblock_image 0 = Inr (example_superblock 1)"
  "unat (b * 4096) + 4096 \<le> 85 * 4096 \<Longrightarrow> 4096 \<le> unat (b * 4096) \<Longrightarrow>
     read_block superblock_image b = Inr (replicate 4096 0)"
proof -
  show "read_block superblock_image 0 = Inr (example_superblock 1)"
    unfolding superblock_image_def by (rule read_block_write_block_same) simp
  assume b: "unat (b * 4096) + 4096 \<le> 85 * 4096" "4096 \<le> unat (b * 4096)"
  have "read_block superblock_image b = read_block zero_image b"
    unfolding superblock_image_def
    by (rule read_block_write_block_other) (use b in \<open>simp_all add: zero_image_def\<close>)
  with b show "read_block superblock_image b = Inr (replicate 4096 0)"
    by (simp add: read_block_zero_image)
qed

lemma read_header_superblock_image:
  "read_journal_bytes example_sb superblock_image 0 8 = Inr (replicate 8 0)"
proof -
  have "file_read superblock_image 4096 8 = file_read zero_image 4096 8"
    unfolding superblock_image_def
    by (rule file_read_write_block_other) (simp_all add: zero_image_def)
  then show ?thesis
    by (simp add: read_journal_bytes_def example_sb_def file_read_zero_image)
qed

lemma example_sb_journal_40:
  "journal_block (example_sb\<lparr>journal_block := 40\<rparr>) = 40"
  "unat (journal_block (example_sb\<lparr>journal_block := 40\<rparr>) * 4096) = 163840"
  "unat (journal_block example_sb * 4096) = 4096"
  "example_sb\<lparr>journal_block := 1\<rparr> = example_sb"
  by (simp_all add: example_sb_def)

lemma length_enc_recs_example [simp]:
  "length x = 4096 \<Longrightarrow> length (enc_recs [DataRec b x, CommitRec]) = 4108"
  by simp

lemma open_disk_superblock_image: "open_disk superblock_image = Inr example_sb"
  using open_disk_example [OF read_superblock_image(1)] by (simp add: example_sb_journal_40)

text \<open>The image with a superblock and one committed record for block 30.\<close>

lemma install_on_superblock_image:
  defines "g \<equiv> image_with_journal example_sb superblock_image [DataRec 30 (replicate 4096 1), CommitRec]"
  defines "g1 \<equiv> clear_journal example_sb (write_block g 30 (replicate 4096 1))"
  shows "open_disk g = Inr example_sb"
    and "journal_holds example_sb g [DataRec 30 (replicate 4096 1), CommitRec]"
    and "journal_install example_sb g = Some (Inr (g1, 1))"
    and "open_disk g1 = Inr example_sb"
proof -
  let ?rs = "[DataRec 30 (replicate 4096 1), CommitRec]"
  have fs: "fsize g = 85 * 4096"
    by (simp add: g_def fsize_image_with_journal fsize_superblock_image example_sb_journal_40)
  have fw: "fsize (write_block g 30 (replicate 4096 1)) = 85 * 4096"
    by (simp add: fsize_write_block fs)
  have "read_block g 0 = read_block superblock_image 0"
    unfolding g_def
    by (rule read_block_image_with_journal) (simp_all add: example_sb_journal_40 fsize_superblock_image)
  then have r0: "read_block g 0 = Inr (example_superblock 1)" by (simp add: read_superblock_image)
  from open_disk_example [OF this] show "open_disk g = Inr example_sb"
    by (simp add: example_sb_journal_40)
  show h: "journal_holds example_sb g ?rs"
    unfolding g_def by (rule journal_holds_image_with_journal) simp_all
  from install_holds_clear [OF h] show "journal_install example_sb g = Some (Inr (g1, 1))"
    by (simp add: g1_def)
  have "read_block g1 0 = read_block (write_block g 30 (replicate 4096 1)) 0"
    unfolding g1_def
    by (rule read_block_clear_journal) (simp_all add: example_sb_journal_40 fw)
  also have "\<dots> = read_block g 0"
    by (rule read_block_write_block_other) (simp_all add: fs)
  finally have "read_block g1 0 = Inr (example_superblock 1)" using r0 by simp
  from open_disk_example [OF this] show "open_disk g1 = Inr example_sb"
    by (simp add: example_sb_journal_40)
qed

text \<open>The image whose first install moves the journal.\<close>

lemma install_on_redirect_image:
  defines "sb40 \<equiv> example_sb\<lparr>journal_block := 40\<rparr>"
  defines "d1 \<equiv> clear_journal example_sb (write_block redirect_image 0 (example_superblock 40))"
  defines "d2 \<equiv> clear_journal sb40 (write_block d1 30 (replicate 4096 1))"
  shows "open_disk redirect_image = Inr example_sb"
    and "journal_install example_sb redirect_image = Some (Inr (d1, 1))"
    and "open_disk d1 = Inr sb40"
    and "journal_install sb40 d1 = Some (Inr (d2, 1))"
    and "read_block d1 30 = Inr (replicate 4096 0)"
    and "read_block d2 30 = Inr (replicate 4096 1)"
proof -
  let ?rsA = "[DataRec 0 (example_superblock 40), CommitRec]"
  let ?rsB = "[DataRec 30 (replicate 4096 1), CommitRec]"
  let ?a = "image_with_journal sb40 superblock_image ?rsB"
  let ?w = "write_block redirect_image 0 (example_superblock 40)"
  let ?w2 = "write_block d1 30 (replicate 4096 1)"
  have d: "redirect_image = image_with_journal example_sb ?a ?rsA"
    by (simp add: redirect_image_def sb40_def)
  have j40: "unat (journal_block sb40 * 4096) = 163840"
    unfolding sb40_def by (rule example_sb_journal_40)
  have j1: "unat (journal_block example_sb * 4096) = 4096" by (rule example_sb_journal_40)
  have fa: "fsize ?a = 85 * 4096"
    by (simp add: fsize_image_with_journal fsize_superblock_image j40)
  have fd: "fsize redirect_image = 85 * 4096"
    unfolding d by (simp add: fsize_image_with_journal fsize_superblock_image j1 j40)
  have fw: "fsize ?w = 85 * 4096" by (simp add: fsize_write_block fd)
  have f1: "fsize d1 = 85 * 4096"
    unfolding d1_def using clear_journal_frame(1) [of example_sb ?w] by (simp add: j1 fw)
  have fw2: "fsize ?w2 = 85 * 4096" by (simp add: fsize_write_block f1)
  have "read_block redirect_image 0 = read_block ?a 0"
    unfolding d by (rule read_block_image_with_journal) (simp_all add: j1 fa)
  also have "\<dots> = read_block superblock_image 0"
    by (rule read_block_image_with_journal) (simp_all add: j40 fsize_superblock_image)
  finally have r0: "read_block redirect_image 0 = Inr (example_superblock 1)"
    by (simp add: read_superblock_image)
  from open_disk_example [OF this] show "open_disk redirect_image = Inr example_sb"
    by (simp add: example_sb_journal_40)
  have hA: "journal_holds example_sb redirect_image ?rsA"
    unfolding d by (rule journal_holds_image_with_journal) simp_all
  from install_holds_clear [OF hA] show "journal_install example_sb redirect_image = Some (Inr (d1, 1))"
    by (simp add: d1_def)
  have "read_block d1 0 = read_block ?w 0"
    unfolding d1_def by (rule read_block_clear_journal) (simp_all add: j1 fw)
  then have "read_block d1 0 = Inr (example_superblock 40)"
    by (simp add: read_block_write_block_same)
  from open_disk_example [OF this] show "open_disk d1 = Inr sb40" by (simp add: sb40_def)
  have "journal_holds sb40 ?a ?rsB"
    by (rule journal_holds_image_with_journal) simp_all
  then have "journal_holds sb40 redirect_image ?rsB"
    unfolding d image_with_journal_def [of example_sb] write_journal_bytes_def
    by (rule journal_holds_file_write_other) (simp add: j1 j40)
  then have "journal_holds sb40 ?w ?rsB"
    unfolding write_block_def by (rule journal_holds_file_write_other) (simp add: j40)
  then have hB: "journal_holds sb40 d1 ?rsB"
    unfolding d1_def clear_journal_def write_journal_bytes_def
    by (rule journal_holds_file_write_other) (simp add: j1 j40)
  from install_holds_clear [OF hB] show "journal_install sb40 d1 = Some (Inr (d2, 1))"
    by (simp add: d2_def)
  have "read_block d1 30 = read_block ?w 30"
    unfolding d1_def by (rule read_block_clear_journal) (simp_all add: j1 fw)
  also have "\<dots> = read_block redirect_image 30"
    by (rule read_block_write_block_other) (simp_all add: fd)
  also have "\<dots> = read_block ?a 30"
    unfolding d by (rule read_block_image_with_journal) (simp_all add: j1 fa)
  also have "\<dots> = read_block superblock_image 30"
    by (rule read_block_image_with_journal) (simp_all add: j40 fsize_superblock_image)
  finally show "read_block d1 30 = Inr (replicate 4096 0)"
    by (simp add: read_superblock_image(2))
  have "read_block d2 30 = read_block ?w2 30"
    unfolding d2_def by (rule read_block_clear_journal) (simp_all add: j40 fw2)
  then show "read_block d2 30 = Inr (replicate 4096 1)"
    by (simp add: read_block_write_block_same)
qed

section \<open>The claims\<close>

text \<open>
  C5 (as amended). Each run of the program reads the superblock from block 0 before it runs
  its command. An install run on a journal whose header lacks the magic, or whose
  \<open>nbytes_used\<close> is at most the header size, reports 0 transactions and returns the image
  as it is. After an install run that succeeded, a second install run whose superblock
  gives the same \<open>journal_block\<close> reports 0 transactions and returns the image of the
  first. This is the case whenever the journal holds records of which none is written at
  block 0 and the journal header is not in block 0: then the first run succeeds with the
  number of commit records, leaves the superblock as it was, and the second run changes
  nothing.
\<close>

theorem install_idempotent:
  "(open_disk d = Inr sb \<and> read_journal_bytes sb d 0 8 = Inr jh
      \<and> (rd32 jh 0 \<noteq> JOURNAL_MAGIC \<or> rd32 jh 4 \<le> 8)
    \<longrightarrow> main Install d = Some (Inr (d, 0)))
   \<and> (open_disk d = Inr sb \<and> main Install d = Some (Inr (d1, n))
       \<and> open_disk d1 = Inr sb1 \<and> journal_block sb1 = journal_block sb
    \<longrightarrow> main Install d1 = Some (Inr (d1, 0)))
   \<and> (open_disk d = Inr sb \<and> journal_holds sb d rs
       \<and> \<not> list_ex (\<lambda>r. writes_block r 0) rs \<and> journal_block sb * 4096 \<noteq> 0
    \<longrightarrow> (\<exists>d'. main Install d = Some (Inr (d', length (filter (\<lambda>r. \<not> is_data r) rs)))
              \<and> open_disk d' = Inr sb \<and> main Install d' = Some (Inr (d', 0))))"
proof (intro conjI impI)
  assume a: "open_disk d = Inr sb \<and> read_journal_bytes sb d 0 8 = Inr jh
      \<and> (rd32 jh 0 \<noteq> JOURNAL_MAGIC \<or> rd32 jh 4 \<le> 8)"
  then have "journal_install sb d = Some (Inr (d, 0))"
    using install_empty [of sb d jh] by blast
  moreover from a have "open_disk d = Inr sb" by simp
  ultimately show "main Install d = Some (Inr (d, 0))" by (simp only: main_install)
next
  assume a: "open_disk d = Inr sb \<and> main Install d = Some (Inr (d1, n))
       \<and> open_disk d1 = Inr sb1 \<and> journal_block sb1 = journal_block sb"
  then have od: "open_disk d = Inr sb" and mi: "main Install d = Some (Inr (d1, n))"
    and od1: "open_disk d1 = Inr sb1" and jb: "journal_block sb1 = journal_block sb"
    by simp_all
  from mi have "journal_install sb d = Some (Inr (d1, n))" unfolding main_install [OF od] .
  then have "journal_install sb d1 = Some (Inr (d1, 0))" by (rule install_twice)
  then have "journal_install sb1 d1 = Some (Inr (d1, 0))"
    unfolding journal_install_cong [OF jb] .
  then show "main Install d1 = Some (Inr (d1, 0))" unfolding main_install [OF od1] .
next
  assume "open_disk d = Inr sb \<and> journal_holds sb d rs
       \<and> \<not> list_ex (\<lambda>r. writes_block r 0) rs \<and> journal_block sb * 4096 \<noteq> 0"
  then show "\<exists>d'. main Install d = Some (Inr (d', length (filter (\<lambda>r. \<not> is_data r) rs)))
              \<and> open_disk d' = Inr sb \<and> main Install d' = Some (Inr (d', 0))"
    using install_same_superblock [of d sb rs] by blast
qed

theorem install_idempotent_witness:
  "open_disk superblock_image = Inr example_sb
   \<and> read_journal_bytes example_sb superblock_image 0 8 = Inr (replicate 8 0)
   \<and> rd32 (replicate 8 0) 0 \<noteq> JOURNAL_MAGIC
   \<and> main Install superblock_image = Some (Inr (superblock_image, 0))
   \<and> open_disk (image_with_journal example_sb superblock_image
                   [DataRec 30 (replicate 4096 1), CommitRec]) = Inr example_sb
   \<and> journal_holds example_sb
        (image_with_journal example_sb superblock_image [DataRec 30 (replicate 4096 1), CommitRec])
        [DataRec 30 (replicate 4096 1), CommitRec]
   \<and> main Install (image_with_journal example_sb superblock_image
                      [DataRec 30 (replicate 4096 1), CommitRec])
     = Some (Inr (clear_journal example_sb
                    (write_block (image_with_journal example_sb superblock_image
                                    [DataRec 30 (replicate 4096 1), CommitRec])
                       30 (replicate 4096 1)), 1))
   \<and> open_disk (clear_journal example_sb
                    (write_block (image_with_journal example_sb superblock_image
                                    [DataRec 30 (replicate 4096 1), CommitRec])
                       30 (replicate 4096 1))) = Inr example_sb
   \<and> main Install (clear_journal example_sb
                    (write_block (image_with_journal example_sb superblock_image
                                    [DataRec 30 (replicate 4096 1), CommitRec])
                       30 (replicate 4096 1)))
     = Some (Inr (clear_journal example_sb
                    (write_block (image_with_journal example_sb superblock_image
                                    [DataRec 30 (replicate 4096 1), CommitRec])
                       30 (replicate 4096 1)), 0))"
proof -
  let ?rs = "[DataRec 30 (replicate 4096 1), CommitRec]"
  let ?g = "image_with_journal example_sb superblock_image ?rs"
  let ?g1 = "clear_journal example_sb (write_block ?g 30 (replicate 4096 1))"
  note g = install_on_superblock_image
  have m: "rd32 (replicate 8 0) 0 \<noteq> JOURNAL_MAGIC" by (simp add: rd32_zero)
  have A: "main Install superblock_image = Some (Inr (superblock_image, 0))"
    using install_idempotent [of superblock_image example_sb "replicate 8 0"]
      open_disk_superblock_image read_header_superblock_image m by blast
  have i: "main Install ?g = Some (Inr (?g1, 1))"
    unfolding main_install [OF g(1)] by (rule g(3))
  have B: "main Install ?g1 = Some (Inr (?g1, 0))"
    using install_idempotent [where d="?g" and sb=example_sb and ?d1.0="?g1" and n=1
        and ?sb1.0=example_sb] g(1,4) i by blast
  have nw: "\<not> list_ex (\<lambda>r. writes_block r 0) ?rs" by simp
  have nj: "journal_block example_sb * 4096 \<noteq> 0" by (simp add: example_sb_def)
  from install_idempotent [where d="?g" and sb=example_sb and rs="?rs"] g(1,2) nw nj
  obtain d' where "main Install ?g = Some (Inr (d', length (filter (\<lambda>r. \<not> is_data r) ?rs)))"
    "main Install d' = Some (Inr (d', 0))" by blast
  with i have "main Install ?g1 = Some (Inr (?g1, 0))" by simp
  with open_disk_superblock_image read_header_superblock_image m A g(1,2) i g(4) B
  show ?thesis by blast
qed

theorem second_install_changes_image_counterexample:
  "open_disk redirect_image = Inr example_sb
   \<and> main Install redirect_image
     = Some (Inr (clear_journal example_sb
                    (write_block redirect_image 0 (example_superblock 40)), 1))
   \<and> main Install (clear_journal example_sb
                      (write_block redirect_image 0 (example_superblock 40)))
     = Some (Inr (clear_journal (example_sb\<lparr>journal_block := 40\<rparr>)
                    (write_block
                       (clear_journal example_sb
                          (write_block redirect_image 0 (example_superblock 40)))
                       30 (replicate 4096 1)), 1))
   \<and> read_block (clear_journal example_sb
                    (write_block redirect_image 0 (example_superblock 40))) 30
     = Inr (replicate 4096 0)
   \<and> read_block (clear_journal (example_sb\<lparr>journal_block := 40\<rparr>)
                    (write_block
                       (clear_journal example_sb
                          (write_block redirect_image 0 (example_superblock 40)))
                       30 (replicate 4096 1))) 30
     = Inr (replicate 4096 1)"
proof -
  note r = install_on_redirect_image
  have 1: "main Install redirect_image
     = Some (Inr (clear_journal example_sb
                    (write_block redirect_image 0 (example_superblock 40)), 1))"
    unfolding main_install [OF r(1)] by (rule r(2))
  have 2: "main Install (clear_journal example_sb
                      (write_block redirect_image 0 (example_superblock 40)))
     = Some (Inr (clear_journal (example_sb\<lparr>journal_block := 40\<rparr>)
                    (write_block
                       (clear_journal example_sb
                          (write_block redirect_image 0 (example_superblock 40)))
                       30 (replicate 4096 1)), 1))"
    unfolding main_install [OF r(3)] by (rule r(4))
  from r(1) 1 2 r(5) r(6) show ?thesis by blast
qed

text \<open>
  C1 (as amended). The used region of the journal is a sequence of records that ends in a
  run of one or more data records with no commit record after them, followed by the bytes
  at which the scan stops: none (the run ends the used region), a record header that fails
  the safety check (size 0, or a record running past \<open>nbytes_used\<close>, as a truncated record
  does), or a record of unknown type. Then \<open>journal_install\<close> succeeds and applies none of
  the run: the image it leaves is the image obtained from the records before the run alone,
  with the journal header reset. So every block that can be read, that no record before the
  run writes and that does not hold the journal header reads as before, whether or not the
  run targets it; and when nothing precedes the run, every byte outside the 8 bytes of the
  journal header is unchanged. However the scan ended, an install that found the magic and
  \<open>nbytes_used\<close> above the header size and succeeded leaves a header with
  \<open>nbytes_used = 8\<close>.
\<close>

theorem dangling_records_discarded:
  "(journal_region sb d (rs @ dangling) rest \<and> dangling \<noteq> [] \<and> list_all is_data dangling \<longrightarrow>
      journal_install sb d =
        Some (Inr (clear_journal sb (fst (replay d [] 0 rs)), snd (snd (replay d [] 0 rs))))
      \<and> read_journal_bytes sb (clear_journal sb (fst (replay d [] 0 rs))) 0 8
          = Inr (journal_header_bytes JOURNAL_MAGIC 8)
      \<and> (\<forall>b x. read_block d b = Inr x \<and> \<not> list_ex (\<lambda>r. writes_block r b) rs
                 \<and> b * 4096 \<noteq> journal_block sb * 4096
             \<longrightarrow> read_block (clear_journal sb (fst (replay d [] 0 rs))) b = Inr x)
      \<and> (rs = [] \<longrightarrow>
            fsize (clear_journal sb d) = fsize d \<and>
            (\<forall>a. a < unat (journal_block sb * 4096) \<or> unat (journal_block sb * 4096) + 8 \<le> a
                  \<longrightarrow> contents (clear_journal sb d) a = contents d a)))
   \<and> (journal_install sb d = Some (Inr (d', n)) \<and> read_journal_bytes sb d 0 8 = Inr jh
        \<and> rd32 jh 0 = JOURNAL_MAGIC \<and> 8 < rd32 jh 4
      \<longrightarrow> read_journal_bytes sb d' 0 8 = Inr (journal_header_bytes JOURNAL_MAGIC 8))"
proof (intro conjI impI)
  assume a: "journal_region sb d (rs @ dangling) rest \<and> dangling \<noteq> [] \<and> list_all is_data dangling"
  then have jr: "journal_region sb d (rs @ dangling) rest" and ne: "dangling \<noteq> []"
    and dd: "list_all is_data dangling" by simp_all
  from jr have wf: "list_all wf_rec rs" by (simp add: journal_region_def)
  have "journal_install sb d =
      Some (Inr (clear_journal sb (fst (replay d [] 0 (rs @ dangling))),
                 snd (snd (replay d [] 0 (rs @ dangling)))))"
    using jr by (rule install_region) (simp add: ne)
  then show "journal_install sb d =
      Some (Inr (clear_journal sb (fst (replay d [] 0 rs)), snd (snd (replay d [] 0 rs))))"
    using replay_append_data [OF dd, of d "[]" 0 rs] by simp
  show "read_journal_bytes sb (clear_journal sb (fst (replay d [] 0 rs))) 0 8
          = Inr (journal_header_bytes JOURNAL_MAGIC 8)"
    by (rule read_header_clear_journal)
  show "\<forall>b x. read_block d b = Inr x \<and> \<not> list_ex (\<lambda>r. writes_block r b) rs
                 \<and> b * 4096 \<noteq> journal_block sb * 4096
             \<longrightarrow> read_block (clear_journal sb (fst (replay d [] 0 rs))) b = Inr x"
    using read_block_install_other [OF _ wf] by blast
  have fs: "unat (journal_block sb * 4096) + 8 \<le> fsize d"
    using jr by (rule journal_region_fsize)
  show "fsize (clear_journal sb d) = fsize d" by (rule clear_journal_frame(1) [OF fs])
  show "\<forall>a. a < unat (journal_block sb * 4096) \<or> unat (journal_block sb * 4096) + 8 \<le> a
                  \<longrightarrow> contents (clear_journal sb d) a = contents d a"
    using clear_journal_frame(2) [OF fs] by blast
next
  assume "journal_install sb d = Some (Inr (d', n)) \<and> read_journal_bytes sb d 0 8 = Inr jh
        \<and> rd32 jh 0 = JOURNAL_MAGIC \<and> 8 < rd32 jh 4"
  then show "read_journal_bytes sb d' 0 8 = Inr (journal_header_bytes JOURNAL_MAGIC 8)"
    using install_resets_header [of sb d d' n jh] by blast
qed

theorem dangling_records_discarded_witness:
  "journal_region example_sb
     (image_with_region example_sb zero_image
        ([DataRec 30 (replicate 4096 1), CommitRec] @ [DataRec 31 (replicate 4096 2)])
        truncated_record)
     ([DataRec 30 (replicate 4096 1), CommitRec] @ [DataRec 31 (replicate 4096 2)])
     truncated_record
   \<and> truncated_record \<noteq> []
   \<and> read_journal_bytes example_sb
       (image_with_region example_sb zero_image
          ([DataRec 30 (replicate 4096 1), CommitRec] @ [DataRec 31 (replicate 4096 2)])
          truncated_record) 0 8
     = Inr (journal_header_bytes JOURNAL_MAGIC 8328)
   \<and> journal_install example_sb
       (image_with_region example_sb zero_image
          ([DataRec 30 (replicate 4096 1), CommitRec] @ [DataRec 31 (replicate 4096 2)])
          truncated_record)
     = Some (Inr (clear_journal example_sb
                   (write_block
                      (image_with_region example_sb zero_image
                         ([DataRec 30 (replicate 4096 1), CommitRec] @ [DataRec 31 (replicate 4096 2)])
                         truncated_record)
                      30 (replicate 4096 1)), 1))
   \<and> read_journal_bytes example_sb
       (clear_journal example_sb
          (write_block
             (image_with_region example_sb zero_image
                ([DataRec 30 (replicate 4096 1), CommitRec] @ [DataRec 31 (replicate 4096 2)])
                truncated_record)
             30 (replicate 4096 1))) 0 8
     = Inr (journal_header_bytes JOURNAL_MAGIC 8)
   \<and> read_block
       (clear_journal example_sb
          (write_block
             (image_with_region example_sb zero_image
                ([DataRec 30 (replicate 4096 1), CommitRec] @ [DataRec 31 (replicate 4096 2)])
                truncated_record)
             30 (replicate 4096 1))) 31
     = Inr (replicate 4096 0)
   \<and> journal_install example_sb
       (image_with_region example_sb zero_image ([] @ [DataRec 31 (replicate 4096 2)]) [])
     = Some (Inr (clear_journal example_sb
                   (image_with_region example_sb zero_image ([] @ [DataRec 31 (replicate 4096 2)]) []),
                  0))
   \<and> contents (clear_journal example_sb
                   (image_with_region example_sb zero_image ([] @ [DataRec 31 (replicate 4096 2)]) []))
         (31 * 4096)
       = contents (image_with_region example_sb zero_image ([] @ [DataRec 31 (replicate 4096 2)]) [])
           (31 * 4096)"
proof -
  let ?rs = "[DataRec 30 (replicate 4096 1), CommitRec]"
  let ?ds = "[DataRec 31 (replicate 4096 2)]"
  let ?d = "image_with_region example_sb zero_image (?rs @ ?ds) truncated_record"
  let ?e = "image_with_region example_sb zero_image ([] @ ?ds) []"
  let ?d1 = "clear_journal example_sb (write_block ?d 30 (replicate 4096 1))"
  have ub: "used_bytes (?rs @ ?ds) = 8220" by (simp add: used_bytes_def)
  have rb: "region_bytes (?rs @ ?ds) truncated_record = 8328"
    by (simp add: region_bytes_def truncated_record_stops(1))
  have h: "journal_region example_sb ?d (?rs @ ?ds) truncated_record"
    by (rule journal_region_image_with_region)
      (simp_all add: truncated_record_stops ub rb del: append.simps)
  have h': "journal_region example_sb ?e ([] @ ?ds) []"
    by (rule journal_region_image_with_region) (simp_all add: scan_stops_def)
  have ne: "truncated_record \<noteq> []" using truncated_record_stops(1) by auto
  have jp: "unat (journal_block example_sb * 4096) = 4096" by (simp add: example_sb_def)
  have r31: "read_block ?d 31 = Inr (replicate 4096 0)"
  proof -
    have "read_block ?d 31 = read_block zero_image 31"
      by (rule read_block_image_with_region)
        (simp_all add: jp zero_image_def truncated_record_stops(1))
    then show ?thesis by (simp add: read_block_zero_image)
  qed
  have nw: "\<not> list_ex (\<lambda>r. writes_block r 31) ?rs" by simp
  have nj: "(31 :: u32) * 4096 \<noteq> journal_block example_sb * 4096" by (simp add: example_sb_def)
  note t = dangling_records_discarded [of example_sb ?d ?rs ?ds truncated_record]
  note t' = dangling_records_discarded [of example_sb ?e "[]" ?ds "[]"]
  from t h have i: "journal_install example_sb ?d = Some (Inr (?d1, 1))" by simp
  have h0: "read_journal_bytes example_sb ?d 0 8 = Inr (journal_header_bytes JOURNAL_MAGIC 8328)"
    using journal_region_header [OF h] by (simp only: rb)
  from dangling_records_discarded [where sb=example_sb and d="?d" and d'="?d1" and n=1
      and jh="journal_header_bytes JOURNAL_MAGIC 8328"] i h0
  have hd: "read_journal_bytes example_sb ?d1 0 8 = Inr (journal_header_bytes JOURNAL_MAGIC 8)"
    by simp
  from t h have "\<forall>b x. read_block ?d b = Inr x \<and> \<not> list_ex (\<lambda>r. writes_block r b) ?rs
                 \<and> b * 4096 \<noteq> journal_block example_sb * 4096
             \<longrightarrow> read_block ?d1 b = Inr x" by simp
  with r31 nw nj have a31: "read_block ?d1 31 = Inr (replicate 4096 0)" by blast
  from t' h' have i': "journal_install example_sb ?e = Some (Inr (clear_journal example_sb ?e, 0))"
    by simp
  from t' h' jp have c': "contents (clear_journal example_sb ?e) (31 * 4096) = contents ?e (31 * 4096)"
    by simp
  from h ne h0 i hd a31 i' c' show ?thesis by blast
qed

theorem dangling_target_changed_counterexample:
  "journal_holds example_sb
     (image_with_journal example_sb zero_image
        ([DataRec 30 (replicate 4096 1), CommitRec] @ [DataRec 30 (replicate 4096 2)]))
     ([DataRec 30 (replicate 4096 1), CommitRec] @ [DataRec 30 (replicate 4096 2)])
   \<and> (case journal_install example_sb
             (image_with_journal example_sb zero_image
                ([DataRec 30 (replicate 4096 1), CommitRec] @ [DataRec 30 (replicate 4096 2)])) of
         Some (Inr (d', n)) \<Rightarrow>
           read_block d' 30 = Inr (replicate 4096 1) \<and>
           read_block (image_with_journal example_sb zero_image
                ([DataRec 30 (replicate 4096 1), CommitRec] @ [DataRec 30 (replicate 4096 2)])) 30
             = Inr (replicate 4096 0)
       | _ \<Rightarrow> False)"
proof -
  let ?rs = "[DataRec 30 (replicate 4096 1), CommitRec]"
  let ?ds = "[DataRec 30 (replicate 4096 2)]"
  let ?d = "image_with_journal example_sb zero_image (?rs @ ?ds)"
  have h: "journal_holds example_sb ?d (?rs @ ?ds)"
    by (rule journal_holds_image_with_journal) simp_all
  have jp: "unat (journal_block example_sb * 4096) = 4096" by (simp add: example_sb_def)
  have i: "journal_install example_sb ?d
      = Some (Inr (clear_journal example_sb (write_block ?d 30 (replicate 4096 1)), 1))"
    using install_holds_clear [OF h] by simp
  have fs: "fsize ?d = 85 * 4096"
    by (simp add: fsize_image_with_journal jp zero_image_def)
  have before: "read_block ?d 30 = Inr (replicate 4096 0)"
  proof -
    have "read_block ?d 30 = read_block zero_image 30"
      by (rule read_block_image_with_journal) (simp_all add: jp zero_image_def)
    then show ?thesis by (simp add: read_block_def file_read_zero_image)
  qed
  have after: "read_block (clear_journal example_sb (write_block ?d 30 (replicate 4096 1))) 30
      = Inr (replicate 4096 1)"
    using read_block_clear_journal [of 30 example_sb "write_block ?d 30 (replicate 4096 1)"]
    by (simp add: jp fsize_write_block fs read_block_write_block_same)
  show ?thesis using h i before after by simp
qed





text \<open>
  C6 (as amended). \<open>read_block\<close> of a block that is not wholly inside the image fails with an
  I/O error, but \<open>write_block\<close> checks nothing: it writes at byte \<open>block_no * 4096\<close>
  (in 32 bits) and extends the image when that is beyond its end. \<open>journal_install\<close> passes
  the block numbers stored in the journal to \<open>write_block\<close> as they are. When every data
  record of the journal names a block below \<open>total_blocks\<close>, install succeeds and the image
  keeps its size of \<open>total_blocks\<close> blocks: no byte is written outside it.
\<close>

theorem install_writes_in_range:
  assumes "journal_holds sb d rs" "rs \<noteq> []" "list_all (target_in_range sb) rs"
    "fsize d = unat (total_blocks sb) * BLOCK_SIZE"
  shows "(\<exists>d' n. journal_install sb d = Some (Inr (d', n)) \<and> fsize d' = fsize d)
         \<and> (\<forall>b. fsize d < unat (b * 4096) + BLOCK_SIZE \<longrightarrow> read_block d b = Inl IoFailure)
         \<and> (\<forall>b buffer. fsize (write_block d b buffer) = max (fsize d) (unat (b * 4096) + length buffer))"
proof -
  from assms(1) have wf: "list_all wf_rec rs" by (simp add: journal_holds_def)
  have fs: "fsize (fst (replay d [] 0 rs)) = fsize d"
    using wf assms(3) _ assms(4) by (rule fsize_replay_in_range) simp
  have hd: "unat (journal_block sb * 4096) + 8 \<le> fsize d"
    using assms(1) by (rule journal_holds_fsize)
  have "fsize (clear_journal sb (fst (replay d [] 0 rs))) = fsize d"
    using clear_journal_frame(1) [of sb "fst (replay d [] 0 rs)"] hd fs by simp
  then have 1: "\<exists>d' n. journal_install sb d = Some (Inr (d', n)) \<and> fsize d' = fsize d"
    using install_holds_clear [OF assms(1,2)] by simp
  show ?thesis
    using 1 by (simp add: read_block_def file_read_def fsize_write_block)
qed

theorem install_writes_in_range_witness:
  "journal_holds example_sb
     (image_with_journal example_sb zero_image [DataRec 30 (replicate 4096 1), CommitRec])
     [DataRec 30 (replicate 4096 1), CommitRec]
   \<and> fsize (image_with_journal example_sb zero_image [DataRec 30 (replicate 4096 1), CommitRec])
       = unat (total_blocks example_sb) * BLOCK_SIZE
   \<and> (\<exists>d' n. journal_install example_sb
                (image_with_journal example_sb zero_image [DataRec 30 (replicate 4096 1), CommitRec])
              = Some (Inr (d', n))
            \<and> fsize d' = 85 * 4096)
   \<and> read_block (image_with_journal example_sb zero_image [DataRec 30 (replicate 4096 1), CommitRec]) 85
       = Inl IoFailure"
proof -
  let ?rs = "[DataRec 30 (replicate 4096 1), CommitRec]"
  let ?d = "image_with_journal example_sb zero_image ?rs"
  have h: "journal_holds example_sb ?d ?rs"
    by (rule journal_holds_image_with_journal) simp_all
  have jp: "unat (journal_block example_sb * 4096) = 4096" by (simp add: example_sb_def)
  have fs: "fsize ?d = 85 * 4096"
    by (simp add: fsize_image_with_journal jp zero_image_def)
  have tb: "unat (total_blocks example_sb) = 85" by (simp add: example_sb_def)
  have rg: "list_all (target_in_range example_sb) ?rs" by (simp add: example_sb_def)
  from install_writes_in_range [OF h _ rg] fs tb h
  show ?thesis by simp
qed

theorem install_writes_out_of_range_counterexample:
  "journal_holds example_sb
     (image_with_journal example_sb zero_image [DataRec 85 (replicate 4096 1), CommitRec])
     [DataRec 85 (replicate 4096 1), CommitRec]
   \<and> total_blocks example_sb = 85
   \<and> fsize (image_with_journal example_sb zero_image [DataRec 85 (replicate 4096 1), CommitRec])
       = 85 * 4096
   \<and> (case journal_install example_sb
             (image_with_journal example_sb zero_image [DataRec 85 (replicate 4096 1), CommitRec]) of
         Some (Inr (d', n)) \<Rightarrow>
           n = 1 \<and> fsize d' = 86 * 4096 \<and> read_block d' 85 = Inr (replicate 4096 1)
       | _ \<Rightarrow> False)"
proof -
  let ?rs = "[DataRec 85 (replicate 4096 1), CommitRec]"
  let ?d = "image_with_journal example_sb zero_image ?rs"
  have h: "journal_holds example_sb ?d ?rs"
    by (rule journal_holds_image_with_journal) simp_all
  have jp: "unat (journal_block example_sb * 4096) = 4096" by (simp add: example_sb_def)
  have fs: "fsize ?d = 85 * 4096"
    by (simp add: fsize_image_with_journal jp zero_image_def)
  have i: "journal_install example_sb ?d
      = Some (Inr (clear_journal example_sb (write_block ?d 85 (replicate 4096 1)), 1))"
    using install_holds_clear [OF h] by simp
  have fw: "fsize (write_block ?d 85 (replicate 4096 1)) = 86 * 4096"
    by (simp add: fsize_write_block fs)
  have fc: "fsize (clear_journal example_sb (write_block ?d 85 (replicate 4096 1))) = 86 * 4096"
    using clear_journal_frame(1) [of example_sb "write_block ?d 85 (replicate 4096 1)"] fw jp by simp
  have rb: "read_block (clear_journal example_sb (write_block ?d 85 (replicate 4096 1))) 85
      = Inr (replicate 4096 1)"
    using read_block_clear_journal [of 85 example_sb "write_block ?d 85 (replicate 4096 1)"]
    by (simp add: jp fw read_block_write_block_same)
  show ?thesis using h i fs fc rb by (simp add: example_sb_def)
qed

text \<open>
  C7. The slot search of \<open>journal_create\<close>, for a directory block and a name of at most 27
  bytes: if a used entry has exactly the requested name, the result is \<open>AlreadyExists\<close>,
  whether or not an entry is free; otherwise it is the lowest-indexed entry whose name
  starts with a zero byte; and it is \<open>DirectoryFull\<close> only when no entry is free and no
  name matches. The scan visits the 128 entries in order, each once.
\<close>

theorem find_free_dirent_result:
  assumes "length dir_block = BLOCK_SIZE" "length filename \<le> 27" "0 \<notin> set filename"
  shows "find_free_dirent dir_block filename =
           (if \<exists>i<MAX_DIRENTS. dirent_used dir_block i \<and> dirent_name dir_block i = filename
            then Inl AlreadyExists
            else if \<exists>i<MAX_DIRENTS. \<not> dirent_used dir_block i
            then Inr (LEAST i. \<not> dirent_used dir_block i)
            else Inl DirectoryFull)"
proof -
  have sc: "scan_dirents dir_block filename [0..<128] None =
           (if \<exists>i \<in> set [0..<128]. dirent_used dir_block i \<and> dirent_name dir_block i = filename
            then Inl AlreadyExists
            else Inr (List.find (\<lambda>i. \<not> dirent_used dir_block i) [0..<128]))"
    using scan_dirents_result [OF assms, of "[0..<128]" None] by simp
  show ?thesis
  proof (cases "\<exists>i<128. dirent_used dir_block i \<and> dirent_name dir_block i = filename")
    case True
    then show ?thesis using sc by (auto simp add: find_free_dirent_def)
  next
    case False
    note nomatch = this
    show ?thesis
    proof (cases "\<exists>i<128. \<not> dirent_used dir_block i")
      case True
      from find_upt_least [OF this] nomatch True sc show ?thesis
        by (auto simp add: find_free_dirent_def)
    next
      case False
      from find_upt_none [OF this] nomatch False sc show ?thesis
        by (auto simp add: find_free_dirent_def)
    qed
  qed
qed

theorem find_free_dirent_result_witness:
  "length example_dir_block = BLOCK_SIZE \<and> length a_txt \<le> 27 \<and> 0 \<notin> set a_txt
   \<and> find_free_dirent example_dir_block a_txt = Inr 2"
proof -
  have 1: "length example_dir_block = BLOCK_SIZE" "length a_txt \<le> 27" "0 \<notin> set a_txt"
    by (simp_all add: a_txt_def)
  have nm: "\<not> (\<exists>i<128. dirent_used example_dir_block i \<and> dirent_name example_dir_block i = a_txt)"
    by (rule example_dir_block_no_match) (simp_all add: a_txt_def)
  have fr: "\<exists>i<128. \<not> dirent_used example_dir_block i"
    using example_dir_block_used(3) [of 2] by (intro exI [of _ 2]) simp
  from find_free_dirent_result [OF 1] nm fr example_dir_block_least 1
  show ?thesis by simp
qed

text \<open>
  C8 (as amended). A successful \<open>journal_create\<close> writes only inside the journal region
  when the 16 journal blocks lie inside the image and the journal header either lacks the
  magic or records at most the journal capacity as used: the image keeps its size, every
  byte outside the \<open>JOURNAL_BLOCKS * BLOCK_SIZE\<close> bytes of the journal is unchanged, and
  so every block outside the journal (superblock, bitmaps, inode table, root directory, data)
  reads as before. \<open>nbytes_used\<close> is not compared with the capacity on its own, only
  its 32-bit sum with the space a transaction needs: a header that records more than the
  capacity can pass the check, and the records are then written outside the journal.
\<close>

theorem create_writes_only_journal:
  assumes "journal_fits sb d"
    and "read_journal_bytes sb d 0 8 = Inr jh"
    and "rd32 jh 0 = JOURNAL_MAGIC \<longrightarrow> unat (rd32 jh 4) \<le> JOURNAL_BLOCKS * BLOCK_SIZE"
    and "journal_create sb current_time d filename = Inr (d', ino)"
  shows "fsize d' = fsize d
    \<and> (\<forall>a. a < unat (journal_block sb) * BLOCK_SIZE
            \<or> unat (journal_block sb) * BLOCK_SIZE + JOURNAL_BLOCKS * BLOCK_SIZE \<le> a
          \<longrightarrow> contents d' a = contents d a)
    \<and> (\<forall>b. (unat b < unat (journal_block sb) \<or> unat (journal_block sb) + JOURNAL_BLOCKS \<le> unat b)
             \<and> unat b < 2 ^ 20
          \<longrightarrow> read_block d' b = read_block d b)"
proof -
  from assms(4) obtain jh' bm b0 b1 dir slot bm' b0' b1' dir' where
    jh': "read_journal_bytes sb d 0 8 = Inr jh'" and
    chk: "\<not> (if rd32 jh' 0 \<noteq> JOURNAL_MAGIC then 8 else rd32 jh' 4) + 16420 > 65536" and
    rb: "read_block d (inode_bitmap sb) = Inr bm" "find_free_inode bm = Some ino"
    "read_block d (inode_start sb) = Inr b0" "read_block d (inode_start sb + 1) = Inr b1"
    "read_block d (rd32 b0 8) = Inr dir" "find_free_dirent dir filename = Inr slot" and
    pb: "prepare_blocks current_time bm b0 b1 dir ino slot filename = (bm', b0', b1', dir')" and
    d': "d' = write_transaction sb d (if rd32 jh' 0 \<noteq> JOURNAL_MAGIC then 8 else rd32 jh' 4)
            (32 \<le> ino) (rd32 b0 8) bm' b0' b1' dir'"
    by (rule journal_create_InrE)
  from jh' assms(2) have e: "jh' = jh" by simp
  define used where "used = (if rd32 jh 0 \<noteq> JOURNAL_MAGIC then 8 else rd32 jh 4)"
  have "unat used \<le> 65536" using assms(3) by (simp add: used_def)
  moreover have "\<not> used + 16420 > 65536" using chk unfolding e used_def .
  ultimately have cap: "unat used + 16420 \<le> 65536" by (rule capacity_check)
  have lens0: "length bm = 4096" "length b0 = 4096" "length b1 = 4096" "length dir = 4096"
    using rb by (auto dest: read_block_length)
  note lens = prepare_blocks_lengths [OF pb lens0 find_free_inode_Some(2) [OF rb(2)]
      find_free_dirent_bound [OF rb(6)]]
  have fr: "same_outside_journal sb d d'"
    unfolding d' e used_def [symmetric] using assms(1) cap lens by (rule write_transaction_frame)
  then have 1: "fsize d' = fsize d" and 2: "\<forall>a. a < unat (journal_block sb) * BLOCK_SIZE
            \<or> unat (journal_block sb) * BLOCK_SIZE + JOURNAL_BLOCKS * BLOCK_SIZE \<le> a
          \<longrightarrow> contents d' a = contents d a"
    by (simp_all add: same_outside_journal_def)
  have 3: "\<forall>b. (unat b < unat (journal_block sb) \<or> unat (journal_block sb) + JOURNAL_BLOCKS \<le> unat b)
             \<and> unat b < 2 ^ 20
          \<longrightarrow> read_block d' b = read_block d b"
    using same_outside_read_block [OF fr] by blast
  from 1 2 3 show ?thesis by blast
qed

theorem create_writes_only_journal_witness:
  "journal_fits example_sb
     (image_with_journal example_sb fresh_image [DataRec 30 (replicate 4096 1), CommitRec])
   \<and> read_journal_bytes example_sb
       (image_with_journal example_sb fresh_image [DataRec 30 (replicate 4096 1), CommitRec]) 0 8
       = Inr (journal_header_bytes JOURNAL_MAGIC 4116)
   \<and> rd32 (journal_header_bytes JOURNAL_MAGIC 4116) 0 = JOURNAL_MAGIC
   \<and> unat (rd32 (journal_header_bytes JOURNAL_MAGIC 4116) 4) \<le> JOURNAL_BLOCKS * BLOCK_SIZE
   \<and> (\<exists>d'. journal_create example_sb 0
              (image_with_journal example_sb fresh_image [DataRec 30 (replicate 4096 1), CommitRec])
              a_txt = Inr (d', 1)
          \<and> fsize d' = fsize (image_with_journal example_sb fresh_image
                                [DataRec 30 (replicate 4096 1), CommitRec])
          \<and> contents d' 0 = contents (image_with_journal example_sb fresh_image
                                [DataRec 30 (replicate 4096 1), CommitRec]) 0
          \<and> read_block d' 17 = read_block (image_with_journal example_sb fresh_image
                                [DataRec 30 (replicate 4096 1), CommitRec]) 17)"
proof -
  let ?rs = "[DataRec 30 (replicate 4096 1), CommitRec]"
  let ?d = "image_with_journal example_sb fresh_image ?rs"
  have len: "length (enc_recs ?rs) = 4108" by (simp add: enc_recs_def)
  have ub: "used_bytes ?rs = 4116" by (simp add: used_bytes_def len)
  have same: "same_outside_journal example_sb fresh_image ?d"
    unfolding image_with_journal_def
    by (rule write_journal_frame [OF journal_fits_fresh_image])
      (simp_all add: len journal_header_bytes_def le32_def)
  have fits: "journal_fits example_sb ?d"
    using same journal_fits_fresh_image by (rule same_outside_fits)
  have h: "journal_holds example_sb ?d ?rs"
    by (rule journal_holds_image_with_journal) (simp_all add: len)
  have hd: "read_journal_bytes example_sb ?d 0 8 = Inr (journal_header_bytes JOURNAL_MAGIC 4116)"
    using journal_holds_header [OF h] by (simp add: ub)
  have lg: "journal_log example_sb ?d ?rs" using h by (simp add: journal_log_def)
  from create_on_example [OF same lg, of a_txt 0]
  obtain d' where c: "journal_create example_sb 0 ?d a_txt = Inr (d', 1)"
    by (auto simp add: len a_txt_def)
  have f: "rd32 (journal_header_bytes JOURNAL_MAGIC 4116) 0 = JOURNAL_MAGIC"
    "unat (rd32 (journal_header_bytes JOURNAL_MAGIC 4116) 4) \<le> JOURNAL_BLOCKS * BLOCK_SIZE"
    by simp_all
  from create_writes_only_journal [OF fits hd _ c] f
  have "fsize d' = fsize ?d \<and> contents d' 0 = contents ?d 0 \<and> read_block d' 17 = read_block ?d 17"
    by (simp add: example_sb_def)
  with c fits hd f show ?thesis by blast
qed

theorem create_overwrites_superblock_counterexample:
  "journal_fits example_sb wrapped_image
   \<and> read_journal_bytes example_sb wrapped_image 0 8
       = Inr (journal_header_bytes JOURNAL_MAGIC 0xFFFFF000)
   \<and> contents wrapped_image 0 = 0
   \<and> (case journal_create example_sb 0 wrapped_image a_txt of
         Inr (d', ino) \<Rightarrow> contents d' 0 = 1
       | Inl e \<Rightarrow> False)"
proof -
  have fits: "journal_fits example_sb wrapped_image"
    using wrapped_image_same journal_fits_fresh_image by (rule same_outside_fits)
  from create_on_wrapped_image [of 0] obtain d' where
    "journal_create example_sb 0 wrapped_image a_txt = Inr (d', 1)" "contents d' 0 = 1" by blast
  with fits wrapped_image_header contents_wrapped_image_0 show ?thesis by simp
qed

text \<open>
  C2. The scenario of README test 3 on the fresh example image: four creates in a row
  succeed (each stages three data records and a commit record, 12316 bytes, for inode 1) and
  leave \<open>nbytes_used = 49272\<close>. A fifth transaction of the same 12316 bytes would end at
  61588, within the 65536 bytes of the journal, and yet the fifth create fails with
  \<open>JournalFull\<close>: the check of \<open>journal_create\<close> always reserves four data records
  (16420 bytes).
\<close>

theorem fifth_create_journal_full:
  "\<exists>d1 d2 d3 d4 jh bitmap.
     journal_create example_sb 1 fresh_image (f_txt 0x31) = Inr (d1, 1)
   \<and> journal_create example_sb 2 d1 (f_txt 0x32) = Inr (d2, 1)
   \<and> journal_create example_sb 3 d2 (f_txt 0x33) = Inr (d3, 1)
   \<and> journal_create example_sb 4 d3 (f_txt 0x34) = Inr (d4, 1)
   \<and> read_journal_bytes example_sb d4 0 8 = Inr jh \<and> rd32 jh 0 = JOURNAL_MAGIC
   \<and> rd32 jh 4 = 49272
   \<and> read_block d4 (inode_bitmap example_sb) = Inr bitmap \<and> find_free_inode bitmap = Some 1
   \<and> (49272 :: nat) + (3 * SIZEOF_data_record + SIZEOF_commit_record) \<le> JOURNAL_BLOCKS * BLOCK_SIZE
   \<and> journal_create example_sb 5 d4 (f_txt 0x35) = Inl JournalFull"
proof -
  note n = f_txt_name
  obtain d1 t1 where 1: "journal_create example_sb 1 fresh_image (f_txt 0x31) = Inr (d1, 1)"
    "journal_holds example_sb d1 ([] @ t1)" "length (enc_recs t1) = 12316"
    "same_outside_journal example_sb fresh_image d1"
    using create_on_example [where d=fresh_image and rs="[]" and fn="f_txt 0x31" and t=1] journal_log_fresh_image n [where c="0x31"]
    by auto
  obtain d2 t2 where 2: "journal_create example_sb 2 d1 (f_txt 0x32) = Inr (d2, 1)"
    "journal_holds example_sb d2 (t1 @ t2)" "length (enc_recs t2) = 12316"
    "same_outside_journal example_sb fresh_image d2"
    using create_on_example [where d=d1 and rs=t1 and fn="f_txt 0x32" and t=2] 1 n [where c="0x32"]
    by (auto dest: journal_holds_log)
  obtain d3 t3 where 3: "journal_create example_sb 3 d2 (f_txt 0x33) = Inr (d3, 1)"
    "journal_holds example_sb d3 ((t1 @ t2) @ t3)" "length (enc_recs t3) = 12316"
    "same_outside_journal example_sb fresh_image d3"
    using create_on_example [where d=d2 and rs="t1 @ t2" and fn="f_txt 0x33" and t=3] 1 2 n [where c="0x33"]
    by (auto dest: journal_holds_log)
  obtain d4 t4 where 4: "journal_create example_sb 4 d3 (f_txt 0x34) = Inr (d4, 1)"
    "journal_holds example_sb d4 (((t1 @ t2) @ t3) @ t4)" "length (enc_recs t4) = 12316"
    "same_outside_journal example_sb fresh_image d4"
    using create_on_example [where d=d3 and rs="(t1 @ t2) @ t3" and fn="f_txt 0x34" and t=4] 1 2 3 n [where c="0x34"]
    by (auto dest: journal_holds_log)
  let ?rs = "((t1 @ t2) @ t3) @ t4"
  let ?jh = "journal_header_bytes JOURNAL_MAGIC (used_bytes ?rs)"
  have u: "used_bytes ?rs = 49272" using 1(3) 2(3) 3(3) 4(3) by (simp add: used_bytes_def)
  have h: "read_journal_bytes example_sb d4 0 8 = Inr ?jh"
    using 4(2) by (rule journal_holds_header)
  have m: "rd32 ?jh 0 = JOURNAL_MAGIC" "rd32 ?jh 4 = 49272"
    unfolding u by (simp_all only: journal_header_fields')
  have len: "length (f_txt 0x35) \<le> 27" by (simp add: f_txt_def)
  have gt: "rd32 ?jh 4 + 16420 > 65536" unfolding m(2) by simp
  have full: "journal_create example_sb 5 d4 (f_txt 0x35) = Inl JournalFull"
    using len h m(1) gt by (rule journal_create_full)
  have bm: "read_block d4 (inode_bitmap example_sb) = Inr example_bitmap"
    using same_outside_example_reads(1) [OF 4(4)] by (simp add: example_sb_def)
  show ?thesis
    using 1(1) 2(1) 3(1) 4(1) h m full bm find_free_inode_example by auto
qed

text \<open>
  C9. From a formatted image in which every inode-bitmap bit agrees with the type field of
  its inode, every sequence of create and install commands runs to an end, and in the image
  it leaves the bit of each of the 64 inodes is 1 exactly when the type of the inode is not
  free.
\<close>

theorem bitmap_agrees_after_commands:
  assumes "formatted sb d" "image_agrees sb d"
  shows "\<exists>d'. run_commands sb cmds d = Some d' \<and> image_agrees sb d'"
proof -
  from assms have "invariant sb d" by (rule formatted_invariant)
  from invariant_run [OF this, of cmds] show ?thesis by (auto intro: invariant_agrees)
qed

theorem bitmap_agrees_after_commands_witness:
  "formatted example_sb fresh_image \<and> image_agrees example_sb fresh_image
   \<and> (\<exists>d'. run_commands example_sb
              [Create a_txt 1, Create (f_txt 0x31) 2, Install, Create [] 3, Install, Install]
              fresh_image = Some d'
          \<and> image_agrees example_sb d')"
  using bitmap_agrees_after_commands [OF example_formatted example_image_agrees]
    example_formatted example_image_agrees
  by blast

text \<open>
  C3. From a formatted image with an empty journal, a free inode, a free directory slot and
  no entry named \<^verbatim>\<open>a.txt\<close>, create of \<^verbatim>\<open>a.txt\<close> followed by install succeed (one
  transaction installed). In the image they leave, the root directory block has exactly one
  used entry named \<^verbatim>\<open>a.txt\<close>; its inode number is the one create returned, whose bit was
  clear in the bitmap before; and that inode has type file, size 0 and eight direct pointers
  equal to 0.
\<close>

theorem create_install_a_txt:
  assumes "formatted sb d"
    and "read_block d (inode_bitmap sb) = Inr bitmap"
    and "read_block d (inode_start sb) = Inr block0"
    and "read_block d (rd32 block0 8) = Inr dir_block"
    and "find_free_inode bitmap \<noteq> None"
    and "\<exists>i<MAX_DIRENTS. \<not> dirent_used dir_block i"
    and "\<not> (\<exists>i<MAX_DIRENTS. dirent_used dir_block i \<and> dirent_name dir_block i = a_txt)"
  shows "\<exists>d1 ino d2 block0' block1' dir_block' slot.
      journal_create sb current_time d a_txt = Inr (d1, ino)
      \<and> journal_install sb d1 = Some (Inr (d2, 1))
      \<and> 1 \<le> ino \<and> ino < MAX_INODES \<and> bit_clear bitmap ino
      \<and> read_block d2 (inode_start sb) = Inr block0'
      \<and> read_block d2 (inode_start sb + 1) = Inr block1'
      \<and> read_block d2 (rd32 block0' 8) = Inr dir_block'
      \<and> slot < MAX_DIRENTS \<and> dirent_used dir_block' slot \<and> dirent_name dir_block' slot = a_txt
      \<and> dirent_inode dir_block' slot = of_nat ino
      \<and> (\<forall>i<MAX_DIRENTS. dirent_used dir_block' i \<and> dirent_name dir_block' i = a_txt \<longrightarrow> i = slot)
      \<and> inode_type (block0' @ block1') ino = INODE_FILE
      \<and> inode_size (block0' @ block1') ino = 0
      \<and> (\<forall>j<8. inode_direct (block0' @ block1') ino j = 0)"
proof -
  have fn: "length a_txt \<le> 27" "0 \<notin> set a_txt" "a_txt \<noteq> []" by (simp_all add: a_txt_def)
  from create_install_named [OF assms fn(1,2), of current_time]
  obtain d1 k d2 bm' b0' b1' dir' slot where
    c: "journal_create sb current_time d a_txt = Inr (d1, k)"
    "journal_install sb d1 = Some (Inr (d2, 1))"
    "1 \<le> k" "k < 64" "bit_clear bitmap k"
    "read_block d2 (inode_start sb) = Inr b0'" "read_block d2 (inode_start sb + 1) = Inr b1'"
    "read_block d2 (rd32 b0' 8) = Inr dir'"
    "inode_type (b0' @ b1') k = INODE_FILE" "inode_size (b0' @ b1') k = 0"
    "\<forall>j<8. inode_direct (b0' @ b1') k j = 0"
    "slot < 128" "dirent_inode dir' slot = of_nat k" and
    du: "\<forall>i<128. dirent_used dir' i = (if i = slot then a_txt \<noteq> [] else dirent_used dir_block i)" and
    dn: "\<forall>i<128. dirent_name dir' i = (if i = slot then a_txt else dirent_name dir_block i)"
    by blast
  have u: "dirent_used dir' slot" "dirent_name dir' slot = a_txt"
    using du dn c(12) fn(3) by simp_all
  have one: "\<forall>i<128. dirent_used dir' i \<and> dirent_name dir' i = a_txt \<longrightarrow> i = slot"
  proof (intro allI impI)
    fix i assume i: "i < 128" and a: "dirent_used dir' i \<and> dirent_name dir' i = a_txt"
    show "i = slot"
    proof (rule ccontr)
      assume "i \<noteq> slot"
      with du dn i a have "dirent_used dir_block i \<and> dirent_name dir_block i = a_txt" by simp
      with assms(7) i show False by blast
    qed
  qed
  show ?thesis
    using c u one by blast
qed

theorem create_install_a_txt_witness:
  "formatted example_sb fresh_image
   \<and> read_block fresh_image (inode_bitmap example_sb) = Inr example_bitmap
   \<and> read_block fresh_image (inode_start example_sb) = Inr example_inode_block0
   \<and> read_block fresh_image (rd32 example_inode_block0 8) = Inr example_dir_block
   \<and> find_free_inode example_bitmap \<noteq> None
   \<and> (\<exists>i<MAX_DIRENTS. \<not> dirent_used example_dir_block i)
   \<and> \<not> (\<exists>i<MAX_DIRENTS. dirent_used example_dir_block i \<and> dirent_name example_dir_block i = a_txt)
   \<and> (\<exists>d1 d2 block0' block1' dir_block' slot.
         journal_create example_sb 7 fresh_image a_txt = Inr (d1, 1)
       \<and> journal_install example_sb d1 = Some (Inr (d2, 1))
       \<and> bit_clear example_bitmap 1
       \<and> read_block d2 (inode_start example_sb) = Inr block0'
       \<and> read_block d2 (inode_start example_sb + 1) = Inr block1'
       \<and> read_block d2 (rd32 block0' 8) = Inr dir_block'
       \<and> slot < MAX_DIRENTS \<and> dirent_used dir_block' slot \<and> dirent_name dir_block' slot = a_txt
       \<and> dirent_inode dir_block' slot = 1
       \<and> inode_type (block0' @ block1') 1 = INODE_FILE
       \<and> inode_size (block0' @ block1') 1 = 0
       \<and> inode_direct (block0' @ block1') 1 0 = 0)"
proof -
  have h: "read_block fresh_image (inode_bitmap example_sb) = Inr example_bitmap"
    "read_block fresh_image (inode_start example_sb) = Inr example_inode_block0"
    "read_block fresh_image (rd32 example_inode_block0 8) = Inr example_dir_block"
    by (simp_all add: example_sb_fields read_fresh_image root_pointer_example)
  have fi: "find_free_inode example_bitmap \<noteq> None" by (simp add: find_free_inode_example)
  have nm: "\<not> (\<exists>i<MAX_DIRENTS. dirent_used example_dir_block i \<and> dirent_name example_dir_block i = a_txt)"
    by (rule example_dir_block_no_match) (simp_all add: a_txt_def)
  from create_install_a_txt [OF example_formatted h fi example_free_slot nm, of 7]
  obtain d1 ino d2 block0' block1' dir_block' slot where
    c: "journal_create example_sb 7 fresh_image a_txt = Inr (d1, ino)"
    "journal_install example_sb d1 = Some (Inr (d2, 1))"
    "bit_clear example_bitmap ino"
    "read_block d2 (inode_start example_sb) = Inr block0'"
    "read_block d2 (inode_start example_sb + 1) = Inr block1'"
    "read_block d2 (rd32 block0' 8) = Inr dir_block'"
    "slot < MAX_DIRENTS" "dirent_used dir_block' slot" "dirent_name dir_block' slot = a_txt"
    "dirent_inode dir_block' slot = of_nat ino"
    "inode_type (block0' @ block1') ino = INODE_FILE"
    "inode_size (block0' @ block1') ino = 0"
    "\<forall>j<8. inode_direct (block0' @ block1') ino j = 0"
    by blast
  from c(1) create_on_fresh_image [of 7] have ino: "ino = 1" by simp
  have d0: "inode_direct (block0' @ block1') 1 0 = 0" using c(13) ino by simp
  have "\<exists>d1 d2 block0' block1' dir_block' slot.
         journal_create example_sb 7 fresh_image a_txt = Inr (d1, 1)
       \<and> journal_install example_sb d1 = Some (Inr (d2, 1))
       \<and> bit_clear example_bitmap 1
       \<and> read_block d2 (inode_start example_sb) = Inr block0'
       \<and> read_block d2 (inode_start example_sb + 1) = Inr block1'
       \<and> read_block d2 (rd32 block0' 8) = Inr dir_block'
       \<and> slot < MAX_DIRENTS \<and> dirent_used dir_block' slot \<and> dirent_name dir_block' slot = a_txt
       \<and> dirent_inode dir_block' slot = 1
       \<and> inode_type (block0' @ block1') 1 = INODE_FILE
       \<and> inode_size (block0' @ block1') 1 = 0
       \<and> inode_direct (block0' @ block1') 1 0 = 0"
    using c(1-12) d0 unfolding ino by (intro exI [of _ d1] exI [of _ d2] exI [of _ block0']
        exI [of _ block1'] exI [of _ dir_block'] exI [of _ slot]) simp
  with example_formatted h fi example_free_slot nm show ?thesis by blast
qed

text \<open>
  C10. The empty name passes the length check. From a formatted image with an empty journal,
  a free inode \<open>ino\<close> and a free directory slot, create of the empty name succeeds and leaves
  in the journal one committed transaction whose blocks have the bitmap bit of \<open>ino\<close> set,
  the type of inode \<open>ino\<close> set to file, and in some slot of the directory block a directory
  entry with inode number \<open>ino\<close> whose name starts with a zero byte. That entry is unused for
  the slot scan and duplicate check (\<^verbatim>\<open>find_free_dirent\<close> returns, for every name, what it
  returned before the create) and for the directory size (\<^verbatim>\<open>get_highest_dirent\<close> is
  unchanged). After install the image holds these blocks: every used entry of the directory
  is a used entry from before the create, with the same name and inode number, so if no used
  entry named \<open>ino\<close> before, none does now, although its bitmap bit is set.
\<close>

theorem create_empty_name:
  assumes "formatted sb d"
    and "read_block d (inode_bitmap sb) = Inr bitmap"
    and "read_block d (inode_start sb) = Inr block0"
    and "read_block d (rd32 block0 8) = Inr dir_block"
    and "find_free_inode bitmap = Some ino"
    and "\<exists>i<MAX_DIRENTS. \<not> dirent_used dir_block i"
  shows "\<exists>d1 d2 bitmap' block0' block1' dir_block' slot.
      journal_create sb current_time d [] = Inr (d1, ino)
      \<and> journal_holds sb d1
            (transaction_records sb (INODES_PER_BLOCK \<le> ino) (rd32 block0 8)
               bitmap' block0' block1' dir_block')
      \<and> \<not> bit_clear bitmap' ino
      \<and> inode_type (block0' @ block1') ino = INODE_FILE
      \<and> slot < MAX_DIRENTS
      \<and> dirent_inode dir_block' slot = of_nat ino
      \<and> dir_block' ! (slot * 32 + 4) = 0
      \<and> \<not> dirent_used dir_block' slot
      \<and> (\<forall>name. length name \<le> 27 \<and> 0 \<notin> set name \<longrightarrow>
            find_free_dirent dir_block' name = find_free_dirent dir_block name)
      \<and> get_highest_dirent dir_block' = get_highest_dirent dir_block
      \<and> journal_install sb d1 = Some (Inr (d2, 1))
      \<and> read_block d2 (inode_bitmap sb) = Inr bitmap'
      \<and> read_block d2 (inode_start sb) = Inr block0'
      \<and> read_block d2 (inode_start sb + 1) = Inr block1'
      \<and> read_block d2 (rd32 block0' 8) = Inr dir_block'
      \<and> (\<forall>i<MAX_DIRENTS. dirent_used dir_block' i \<longrightarrow>
            dirent_used dir_block i \<and> dirent_name dir_block' i = dirent_name dir_block i
            \<and> dirent_inode dir_block' i = dirent_inode dir_block i)
      \<and> ((\<forall>i<MAX_DIRENTS. dirent_used dir_block i \<longrightarrow> dirent_inode dir_block i \<noteq> of_nat ino)
           \<longrightarrow> (\<forall>i<MAX_DIRENTS. dirent_used dir_block' i \<longrightarrow> dirent_inode dir_block' i \<noteq> of_nat ino))"
proof -
  from create_install_empty [OF assms, of current_time]
  obtain d1 d2 bm' b0' b1' dir' slot where
    c: "journal_create sb current_time d [] = Inr (d1, ino)"
      "journal_holds sb d1 (transaction_records sb (32 \<le> ino) (rd32 block0 8) bm' b0' b1' dir')"
      "journal_install sb d1 = Some (Inr (d2, 1))"
      "read_block d2 (inode_bitmap sb) = Inr bm'" "\<not> bit_clear bm' ino"
      "read_block d2 (inode_start sb) = Inr b0'" "read_block d2 (inode_start sb + 1) = Inr b1'"
      "read_block d2 (rd32 b0' 8) = Inr dir'"
      "inode_type (b0' @ b1') ino = INODE_FILE"
    and s: "find_free_dirent dir_block [] = Inr slot" "slot < 128"
      "dirent_inode dir' slot = of_nat ino" "dir' ! (slot * 32 + 4) = 0"
    and len: "length dir_block = 4096" "length dir' = 4096"
    and du: "\<forall>i<128. dirent_used dir' i = dirent_used dir_block i"
    and dn: "\<forall>i<128. dirent_name dir' i = (if i = slot then [] else dirent_name dir_block i)"
    and di: "\<forall>i<128. i \<noteq> slot \<longrightarrow> dirent_inode dir' i = dirent_inode dir_block i"
    by blast
  have unused: "\<not> dirent_used dir' slot" using s(4) by (simp add: dirent_used_def)
  then have unused0: "\<not> dirent_used dir_block slot" using du s(2) by simp
  have same: "\<forall>i<128. dirent_used dir' i \<longrightarrow>
      dirent_used dir_block i \<and> dirent_name dir' i = dirent_name dir_block i
      \<and> dirent_inode dir' i = dirent_inode dir_block i"
    using du dn di unused by auto
  have names: "\<forall>i<128. dirent_used dir_block i \<longrightarrow> dirent_name dir' i = dirent_name dir_block i"
    using du same by simp
  have scan: "\<forall>name. length name \<le> 27 \<and> 0 \<notin> set name \<longrightarrow>
      find_free_dirent dir' name = find_free_dirent dir_block name"
    using find_free_dirent_cong [OF len(2,1) _ _ du names] by blast
  have high: "get_highest_dirent dir' = get_highest_dirent dir_block"
    by (rule get_highest_dirent_cong [OF du])
  have reach: "(\<forall>i<128. dirent_used dir_block i \<longrightarrow> dirent_inode dir_block i \<noteq> of_nat ino)
           \<longrightarrow> (\<forall>i<128. dirent_used dir' i \<longrightarrow> dirent_inode dir' i \<noteq> of_nat ino)"
    using same by auto
  show ?thesis
    using c s(2,3,4) unused scan high same reach
    by (intro exI [of _ d1] exI [of _ d2] exI [of _ bm'] exI [of _ b0'] exI [of _ b1']
        exI [of _ dir'] exI [of _ slot]) simp
qed

theorem create_empty_name_witness:
  "formatted example_sb fresh_image
   \<and> read_block fresh_image (inode_bitmap example_sb) = Inr example_bitmap
   \<and> read_block fresh_image (inode_start example_sb) = Inr example_inode_block0
   \<and> read_block fresh_image (rd32 example_inode_block0 8) = Inr example_dir_block
   \<and> find_free_inode example_bitmap = Some 1
   \<and> (\<exists>i<MAX_DIRENTS. \<not> dirent_used example_dir_block i)
   \<and> (\<exists>d1 d2 bitmap' block0' block1' dir_block' slot.
         journal_create example_sb 7 fresh_image [] = Inr (d1, 1)
       \<and> journal_install example_sb d1 = Some (Inr (d2, 1))
       \<and> read_block d2 (inode_bitmap example_sb) = Inr bitmap'
       \<and> read_block d2 (inode_start example_sb) = Inr block0'
       \<and> read_block d2 (inode_start example_sb + 1) = Inr block1'
       \<and> read_block d2 (rd32 block0' 8) = Inr dir_block'
       \<and> \<not> bit_clear bitmap' 1
       \<and> inode_type (block0' @ block1') 1 = INODE_FILE
       \<and> slot < MAX_DIRENTS
       \<and> dirent_inode dir_block' slot = 1
       \<and> \<not> dirent_used dir_block' slot
       \<and> find_free_dirent dir_block' a_txt = Inr 2
       \<and> get_highest_dirent dir_block' = get_highest_dirent example_dir_block)"
proof -
  have h: "read_block fresh_image (inode_bitmap example_sb) = Inr example_bitmap"
    "read_block fresh_image (inode_start example_sb) = Inr example_inode_block0"
    "read_block fresh_image (rd32 example_inode_block0 8) = Inr example_dir_block"
    by (simp_all add: example_sb_fields read_fresh_image root_pointer_example)
  from create_empty_name [OF example_formatted h find_free_inode_example example_free_slot, of 7]
  obtain d1 d2 bitmap' block0' block1' dir_block' slot where
    c: "journal_create example_sb 7 fresh_image [] = Inr (d1, 1)"
      "journal_install example_sb d1 = Some (Inr (d2, 1))"
      "read_block d2 (inode_bitmap example_sb) = Inr bitmap'"
      "read_block d2 (inode_start example_sb) = Inr block0'"
      "read_block d2 (inode_start example_sb + 1) = Inr block1'"
      "read_block d2 (rd32 block0' 8) = Inr dir_block'"
      "\<not> bit_clear bitmap' 1"
      "inode_type (block0' @ block1') 1 = INODE_FILE"
      "slot < MAX_DIRENTS"
      "dirent_inode dir_block' slot = of_nat 1"
      "\<not> dirent_used dir_block' slot"
      "get_highest_dirent dir_block' = get_highest_dirent example_dir_block"
    and scan: "\<forall>name. length name \<le> 27 \<and> 0 \<notin> set name \<longrightarrow>
            find_free_dirent dir_block' name = find_free_dirent example_dir_block name"
    by blast
  have "length a_txt \<le> 27 \<and> 0 \<notin> set a_txt" by (simp add: a_txt_def)
  with scan find_free_dirent_example have sc: "find_free_dirent dir_block' a_txt = Inr 2"
    by simp
  have "\<exists>d1 d2 bitmap' block0' block1' dir_block' slot.
         journal_create example_sb 7 fresh_image [] = Inr (d1, 1)
       \<and> journal_install example_sb d1 = Some (Inr (d2, 1))
       \<and> read_block d2 (inode_bitmap example_sb) = Inr bitmap'
       \<and> read_block d2 (inode_start example_sb) = Inr block0'
       \<and> read_block d2 (inode_start example_sb + 1) = Inr block1'
       \<and> read_block d2 (rd32 block0' 8) = Inr dir_block'
       \<and> \<not> bit_clear bitmap' 1
       \<and> inode_type (block0' @ block1') 1 = INODE_FILE
       \<and> slot < MAX_DIRENTS
       \<and> dirent_inode dir_block' slot = 1
       \<and> \<not> dirent_used dir_block' slot
       \<and> find_free_dirent dir_block' a_txt = Inr 2
       \<and> get_highest_dirent dir_block' = get_highest_dirent example_dir_block"
    using c sc
    by (intro exI [of _ d1] exI [of _ d2] exI [of _ bitmap'] exI [of _ block0'] exI [of _ block1']
        exI [of _ dir_block'] exI [of _ slot]) simp
  with example_formatted h find_free_inode_example example_free_slot show ?thesis by blast
qed

end
